theory Spec2Isabelle
  imports Main "HOL-Library.Sublist" "HOL-Library.AList" "HOL-Library.Word"
begin

section \<open>Snapshots and the diff engine (k8s.go, CompareMap)\<close>

text \<open>
  A Go \<open>map[string]string\<close> is modelled as an association list: the order of the list is
  the order in which \<open>range\<close> visits the entries (Go leaves it unspecified, so every
  statement below is proved for every order). A Go map holds each key once; where a
  statement depends on that, it assumes \<open>distinct (map fst m)\<close>.
\<close>

type_synonym snapshot = "(string \<times> string) list"

text \<open>\<open>m[k]\<close> on a Go map: the stored value, or the zero value \<open>""\<close> for a missing key.\<close>

definition index :: "snapshot \<Rightarrow> string \<Rightarrow> string" where
  "index m k = (case map_of m k of None \<Rightarrow> [] | Some v \<Rightarrow> v)"

text \<open>\<open>m[k] = v\<close> on a Go map.\<close>

definition assign :: "string \<Rightarrow> 'v \<Rightarrow> (string \<times> 'v) list \<Rightarrow> (string \<times> 'v) list" where
  "assign k v m = AList.update k v m"

record ActionList =
  Add :: "string list"
  Upd :: "string list"
  Del :: "string list"
  Same :: "string list"

text \<open>First loop of CompareMap: \<open>for key, last := range lasts\<close>.\<close>

fun CompareMap_lasts :: "snapshot \<Rightarrow> snapshot \<Rightarrow> ActionList \<Rightarrow> ActionList" where
  "CompareMap_lasts [] currs act = act"
| "CompareMap_lasts ((key, last') # rest) currs act =
     CompareMap_lasts rest currs
       (case map_of currs key of
          None \<Rightarrow> act\<lparr>Del := Del act @ [key]\<rparr>
        | Some cur \<Rightarrow>
            if last' \<noteq> cur then act\<lparr>Upd := Upd act @ [key]\<rparr>
            else act\<lparr>Same := Same act @ [key]\<rparr>)"

text \<open>Second loop of CompareMap: \<open>for key, _ := range currs\<close>.\<close>

fun CompareMap_currs :: "snapshot \<Rightarrow> snapshot \<Rightarrow> ActionList \<Rightarrow> ActionList" where
  "CompareMap_currs [] lasts act = act"
| "CompareMap_currs ((key, cur) # rest) lasts act =
     CompareMap_currs rest lasts
       (case map_of lasts key of
          None \<Rightarrow> act\<lparr>Add := Add act @ [key]\<rparr>
        | Some _ \<Rightarrow> act)"

definition CompareMap :: "snapshot \<Rightarrow> snapshot \<Rightarrow> ActionList" where
  "CompareMap lasts currs =
     CompareMap_currs currs lasts
       (CompareMap_lasts lasts currs \<lparr>Add = [], Upd = [], Del = [], Same = []\<rparr>)"

section \<open>Strings, errors and the external collaborators\<close>

text \<open>\<open>strings.HasPrefix(s, prefix)\<close>.\<close>

definition HasPrefix :: "string \<Rightarrow> string \<Rightarrow> bool" where
  "HasPrefix s p = prefix p s"

text \<open>
  \<open>strings.Split(s, sep)\<close> for a separator of one byte: the pieces between the
  separators, one more piece than there are separators.
\<close>

fun Split :: "string \<Rightarrow> char \<Rightarrow> string list" where
  "Split [] sep = [[]]"
| "Split (c # cs) sep =
     (if c = sep then [] # Split cs sep
      else (case Split cs sep of [] \<Rightarrow> [[c]] | e # es \<Rightarrow> (c # e) # es))"

text \<open>
  Go errors. The two errors that k8s.go creates with \<open>errors.New\<close> and the one it creates
  with \<open>fmt.Errorf\<close> are values of their own; an error handed back by a collaborator
  (session manager, datastore, parser) is \<open>External\<close> with its message.
\<close>

datatype error =
    MeshDataNotFound
  | IpAddressDataNotFound
  | EmptyCidr string
  | External string

text \<open>
  What a procedure returning \<open>error\<close> does: return \<open>nil\<close>, return an error, or end the
  process with \<open>os.Exit(1)\<close>.
\<close>

datatype outcome = Done | Failed error | Exited

definition fromError :: "string option \<Rightarrow> outcome" where
  "fromError r = (case r of None \<Rightarrow> Done | Some e \<Rightarrow> Failed (External e))"

text \<open>The constants \<open>Act_add\<close>, \<open>Act_upd\<close>, \<open>Act_del\<close>, \<open>Act_same\<close>.\<close>

datatype action = Act_add | Act_upd | Act_del | Act_same

text \<open>
  The fields of \<open>svbgpconfig.Neighbor.Config\<close> that k8s.go sets; \<open>PeerAs\<close> is a
  \<open>uint32\<close>.
\<close>

record Neighbor =
  NeighborAddress :: string
  PeerAs :: "32 word"
  Description :: string

text \<open>
  The history of a run: every entry into \<open>updateBGPConfig\<close> and every call of the
  session manager, in the order they happen.
\<close>

datatype event =
    Call_updateBGPConfig action string
  | Call_AddNeighbor Neighbor
  | Call_DeleteNeighbor Neighbor

text \<open>
  libcalico-go's serialisation, which k8s.go only calls: \<open>adaptor_calls kvp\<close> are the
  KVPairs with which the compat adaptor calls \<open>Apply\<close> of the backing client while it
  applies \<open>kvp\<close>; \<open>KeyToDefaultPath\<close> and \<open>SerializeValue\<close> may fail.
\<close>

record 'k serializer =
  adaptor_calls :: "'k \<Rightarrow> 'k list"
  KeyToDefaultPath :: "'k \<Rightarrow> string + string"
  SerializeValue :: "'k \<Rightarrow> string + string"

text \<open>
  The constants of the package that are declared outside k8s.go, the node name, and the
  collaborators of \<open>k8sClient\<close>. A collaborator that talks to the outside takes the
  state of the outside world \<open>'w\<close> and returns the new one; the others are functions.
\<close>

record ('w, 'k, 'n) k8sClient =
  GlobalBGP :: string
  AllNodes :: string
  GlobalASN :: string
  GlobalNodeMesh :: string
  GlobalLogging :: string
  node :: string
  ser :: "'k serializer"
  AddNeighbor :: "Neighbor \<Rightarrow> 'w \<Rightarrow> string option \<times> 'w"
  DeleteNeighbor :: "Neighbor \<Rightarrow> 'w \<Rightarrow> string option \<times> 'w"
  getNeighborConfigFromPeer :: "string \<Rightarrow> string \<Rightarrow> string + Neighbor"
  getPeerASN :: "string \<Rightarrow> 'w \<Rightarrow> (string + 32 word) \<times> 'w"
  getNodeASN :: "'w \<Rightarrow> (string + 32 word) \<times> 'w"
  ASNumberFromString :: "string \<Rightarrow> string + 32 word"
  underscore :: "string \<Rightarrow> string"
  isMeshMode :: "'w \<Rightarrow> (string + bool) \<times> 'w"
  getMeshNeighborConfigs :: "'w \<Rightarrow> (string + Neighbor list) \<times> 'w"
  getGlobalNeighborConfigs :: "'w \<Rightarrow> (string + Neighbor list) \<times> 'w"
  getNodeSpecificNeighborConfigs :: "'w \<Rightarrow> (string + Neighbor list) \<times> 'w"
  List_GlobalBGPConfig :: "'w \<Rightarrow> (string + 'k list) \<times> 'w"
  List_GlobalBGPPeer :: "'w \<Rightarrow> (string + 'k list) \<times> 'w"
  Nodes_List :: "'w \<Rightarrow> (string + 'n list) \<times> 'w"
  K8sNodeToCalico :: "'n \<Rightarrow> string + 'k"
  ExtractCfg :: "'n \<Rightarrow> string + 'k list"
  ExtractPeers :: "'n \<Rightarrow> string + 'k list"

text \<open>The state a peering cycle works on; \<open>lastBgpconfig\<close> is the package variable.\<close>

record 'w state =
  world :: 'w
  trace :: "event list"
  lastBgpconfig :: snapshot

section \<open>Fetching the peering snapshot (getBGPConfig)\<close>

text \<open>\<open>etcdVarClient.Apply\<close>: the only place that writes the map.\<close>

definition etcdVarClient_Apply :: "'k serializer \<Rightarrow> 'k \<Rightarrow> snapshot \<Rightarrow> string option \<times> snapshot" where
  "etcdVarClient_Apply s kvp vars =
     (case KeyToDefaultPath s kvp of
        Inl e \<Rightarrow> (Some e, vars)
      | Inr path \<Rightarrow>
          (case SerializeValue s kvp of
             Inl e \<Rightarrow> (Some e, vars)
           | Inr v \<Rightarrow> (None, assign path v vars)))"

text \<open>
  \<open>populateFromKVPairs\<close>: each KVPair goes through the compat adaptor, which calls
  \<open>etcdVarClient.Apply\<close>; an error is logged and the loop goes on.
\<close>

definition populateFromKVPairs :: "'k serializer \<Rightarrow> 'k list \<Rightarrow> snapshot \<Rightarrow> snapshot" where
  "populateFromKVPairs s kvps vars =
     foldl (\<lambda>vs kvp. foldl (\<lambda>v k. snd (etcdVarClient_Apply s k v)) vs (adaptor_calls s kvp))
       vars kvps"

definition populateNodeDetails ::
  "('w, 'k, 'n) k8sClient \<Rightarrow> 'n \<Rightarrow> snapshot \<Rightarrow> error + snapshot" where
  "populateNodeDetails c kNode vars =
     (case K8sNodeToCalico c kNode of
        Inl e \<Rightarrow> Inl (External e)
      | Inr cNode \<Rightarrow>
          Inr (populateFromKVPairs (ser c)
                 ([cNode]
                  @ (case ExtractCfg c kNode of Inl e \<Rightarrow> [] | Inr cfg \<Rightarrow> cfg)
                  @ (case ExtractPeers c kNode of Inl e \<Rightarrow> [] | Inr peers \<Rightarrow> peers))
                 vars))"

text \<open>The loop \<open>for _, kNode := range nodes.Items\<close> of getBGPConfig.\<close>

fun populateNodes ::
  "('w, 'k, 'n) k8sClient \<Rightarrow> 'n list \<Rightarrow> snapshot \<Rightarrow> error + snapshot" where
  "populateNodes c [] vars = Inr vars"
| "populateNodes c (kNode # rest) vars =
     (case populateNodeDetails c kNode vars of
        Inl e \<Rightarrow> Inl e
      | Inr vars' \<Rightarrow> populateNodes c rest vars')"

definition mesh_enabled :: string where
  \<open>mesh_enabled = ''{"enabled":true}''\<close>

definition bgpconfig_defaults :: "('w, 'k, 'n) k8sClient \<Rightarrow> snapshot" where
  "bgpconfig_defaults c =
     assign (GlobalNodeMesh c) mesh_enabled
       (assign (GlobalASN c) ''64512''
          (assign (GlobalLogging c) ''info'' []))"

definition getBGPConfig :: "('w, 'k, 'n) k8sClient \<Rightarrow> 'w \<Rightarrow> (error + snapshot) \<times> 'w" where
  "getBGPConfig c w =
     (case List_GlobalBGPConfig c w of
        (Inl e, w1) \<Rightarrow> (Inl (External e), w1)
      | (Inr kvps, w1) \<Rightarrow>
          (case List_GlobalBGPPeer c w1 of
             (Inl e, w2) \<Rightarrow> (Inl (External e), w2)
           | (Inr kvps', w2) \<Rightarrow>
               (case Nodes_List c w2 of
                  (Inl e, w3) \<Rightarrow> (Inl (External e), w3)
                | (Inr nodes, w3) \<Rightarrow>
                    (populateNodes c nodes
                       (populateFromKVPairs (ser c) kvps'
                          (populateFromKVPairs (ser c) kvps (bgpconfig_defaults c))),
                     w3))))"

definition getNeighborConfigs ::
  "('w, 'k, 'n) k8sClient \<Rightarrow> snapshot \<Rightarrow> 'w \<Rightarrow> (error + Neighbor list) \<times> 'w" where
  "getNeighborConfigs c bgpconfig w =
     (case map_of bgpconfig (GlobalNodeMesh c) of
        None \<Rightarrow> (Inl MeshDataNotFound, w)
      | Some mesh \<Rightarrow>
          (case (if mesh = mesh_enabled then getMeshNeighborConfigs c w else (Inr [], w)) of
             (Inl e, w1) \<Rightarrow> (Inl (External e), w1)
           | (Inr ns, w1) \<Rightarrow>
               (case getGlobalNeighborConfigs c w1 of
                  (Inl e, w2) \<Rightarrow> (Inl (External e), w2)
                | (Inr ns', w2) \<Rightarrow>
                    (case getNodeSpecificNeighborConfigs c w2 of
                       (Inl e, w3) \<Rightarrow> (Inl (External e), w3)
                     | (Inr ns'', w3) \<Rightarrow> (Inr (ns @ ns' @ ns''), w3)))))"

section \<open>Applying one key of the peering delta (updateBGPConfig)\<close>

definition bgpServer_AddNeighbor ::
  "('w, 'k, 'n) k8sClient \<Rightarrow> Neighbor \<Rightarrow> 'w state \<Rightarrow> outcome \<times> 'w state" where
  "bgpServer_AddNeighbor c n st =
     (case AddNeighbor c n (world st) of
        (r, w) \<Rightarrow> (fromError r, st\<lparr>world := w, trace := trace st @ [Call_AddNeighbor n]\<rparr>))"

definition bgpServer_DeleteNeighbor ::
  "('w, 'k, 'n) k8sClient \<Rightarrow> Neighbor \<Rightarrow> 'w state \<Rightarrow> outcome \<times> 'w state" where
  "bgpServer_DeleteNeighbor c n st =
     (case DeleteNeighbor c n (world st) of
        (r, w) \<Rightarrow> (fromError r, st\<lparr>world := w, trace := trace st @ [Call_DeleteNeighbor n]\<rparr>))"

text \<open>The closure \<open>handleNonMeshNeighbor\<close>.\<close>

definition handleNonMeshNeighbor ::
  "('w, 'k, 'n) k8sClient \<Rightarrow> action \<Rightarrow> string \<Rightarrow> string \<Rightarrow> 'w state \<Rightarrow> outcome \<times> 'w state" where
  "handleNonMeshNeighbor c action neighborType peer st =
     (case getNeighborConfigFromPeer c peer neighborType of
        Inl e \<Rightarrow> (Failed (External e), st)
      | Inr n \<Rightarrow>
          (case action of
             Act_del \<Rightarrow> bgpServer_DeleteNeighbor c n st
           | Act_add \<Rightarrow> bgpServer_AddNeighbor c n st
           | Act_upd \<Rightarrow> bgpServer_AddNeighbor c n st
           | Act_same \<Rightarrow> (Done, st)))"

text \<open>The closure \<open>deleteNeighbor\<close>: nothing to do for the empty address.\<close>

definition deleteNeighbor ::
  "('w, 'k, 'n) k8sClient \<Rightarrow> string \<Rightarrow> 'w state \<Rightarrow> outcome \<times> 'w state" where
  "deleteNeighbor c address st =
     (if address = [] then (Done, st)
      else bgpServer_DeleteNeighbor c
             \<lparr>NeighborAddress = address, PeerAs = 0, Description = []\<rparr> st)"

definition meshNeighbor :: "('w, 'k, 'n) k8sClient \<Rightarrow> string \<Rightarrow> 32 word \<Rightarrow> Neighbor" where
  "meshNeighbor c address asn =
     \<lparr>NeighborAddress = address, PeerAs = asn,
      Description = ''Mesh_'' @ underscore c address\<rparr>"

text \<open>The branch \<open>case "ip_addr_v4", "ip_addr_v6"\<close>.\<close>

definition update_ip_addr ::
  "('w, 'k, 'n) k8sClient \<Rightarrow> action \<Rightarrow> string \<Rightarrow> string \<Rightarrow> string \<Rightarrow> 'w state
     \<Rightarrow> outcome \<times> 'w state" where
  "update_ip_addr c action key val host st =
     (case action of
        Act_del \<Rightarrow> deleteNeighbor c val st
      | Act_same \<Rightarrow> (Done, st)
      | _ \<Rightarrow>
          (case (if action = Act_upd then deleteNeighbor c (index (lastBgpconfig st) key) st
                 else (Done, st)) of
             (Done, st1) \<Rightarrow>
               if val = [] then (Done, st1)
               else
                 (case getPeerASN c host (world st1) of
                    (Inl e, w) \<Rightarrow> (Failed (External e), st1\<lparr>world := w\<rparr>)
                  | (Inr asn, w) \<Rightarrow>
                      bgpServer_AddNeighbor c (meshNeighbor c val asn) (st1\<lparr>world := w\<rparr>))
           | (r, st1) \<Rightarrow> (r, st1)))"

text \<open>The loop \<open>for _, version := range []string{"v4", "v6"}\<close> of the branch \<open>"as_num"\<close>.\<close>

fun as_num_versions ::
  "('w, 'k, 'n) k8sClient \<Rightarrow> string \<Rightarrow> 32 word \<Rightarrow> string \<Rightarrow> snapshot \<Rightarrow> string list
     \<Rightarrow> 'w state \<Rightarrow> outcome \<times> 'w state" where
  "as_num_versions c val asn host bgpconfig [] st = (Done, st)"
| "as_num_versions c val asn host bgpconfig (version # rest) st =
     (case map_of bgpconfig (AllNodes c @ ''/'' @ host @ ''/ip_addr_'' @ version) of
        None \<Rightarrow> (Failed IpAddressDataNotFound, st)
      | Some ip \<Rightarrow>
          if ip = [] then as_num_versions c val asn host bgpconfig rest st
          else
            (case deleteNeighbor c ip st of
               (Done, st1) \<Rightarrow>
                 (case bgpServer_AddNeighbor c (meshNeighbor c val asn) st1 of
                    (Done, st2) \<Rightarrow> as_num_versions c val asn host bgpconfig rest st2
                  | (r, st2) \<Rightarrow> (r, st2))
             | (r, st1) \<Rightarrow> (r, st1)))"

text \<open>The branch \<open>case "as_num"\<close>.\<close>

definition update_as_num ::
  "('w, 'k, 'n) k8sClient \<Rightarrow> action \<Rightarrow> string \<Rightarrow> string \<Rightarrow> snapshot \<Rightarrow> 'w state
     \<Rightarrow> outcome \<times> 'w state" where
  "update_as_num c action val host bgpconfig st =
     (case (if action = Act_upd then (ASNumberFromString c val, world st)
            else getNodeASN c (world st)) of
        (Inl e, w) \<Rightarrow> (Failed (External e), st\<lparr>world := w\<rparr>)
      | (Inr asn, w) \<Rightarrow>
          as_num_versions c val asn host bgpconfig [''v4'', ''v6''] (st\<lparr>world := w\<rparr>))"

text \<open>The loop \<open>for _, n := range ns\<close> of the node-mesh branch.\<close>

fun mesh_neighbors ::
  "('w, 'k, 'n) k8sClient \<Rightarrow> bool \<Rightarrow> Neighbor list \<Rightarrow> 'w state \<Rightarrow> outcome \<times> 'w state" where
  "mesh_neighbors c mesh [] st = (Done, st)"
| "mesh_neighbors c mesh (n # ns) st =
     (case (if mesh then bgpServer_AddNeighbor c n st else bgpServer_DeleteNeighbor c n st) of
        (Done, st1) \<Rightarrow> mesh_neighbors c mesh ns st1
      | (r, st1) \<Rightarrow> (r, st1))"

definition update_node_mesh :: "('w, 'k, 'n) k8sClient \<Rightarrow> 'w state \<Rightarrow> outcome \<times> 'w state" where
  "update_node_mesh c st =
     (case isMeshMode c (world st) of
        (Inl e, w) \<Rightarrow> (Failed (External e), st\<lparr>world := w\<rparr>)
      | (Inr mesh, w) \<Rightarrow>
          (case getMeshNeighborConfigs c w of
             (Inl e, w1) \<Rightarrow> (Failed (External e), st\<lparr>world := w1\<rparr>)
           | (Inr ns, w1) \<Rightarrow> mesh_neighbors c mesh ns (st\<lparr>world := w1\<rparr>)))"

text \<open>The branch \<open>case strings.HasPrefix(key, AllNodes)\<close>.\<close>

definition update_node_key ::
  "('w, 'k, 'n) k8sClient \<Rightarrow> action \<Rightarrow> string \<Rightarrow> snapshot \<Rightarrow> 'w state \<Rightarrow> outcome \<times> 'w state" where
  "update_node_key c action key bgpconfig st =
     (let elems = Split key CHR ''/'' in
      if length elems < 4 then (Done, st)
      else
        (let host = elems ! (length elems - 2);
             field = elems ! (length elems - 1)
         in if field = ''ip_addr_v4'' \<or> field = ''ip_addr_v6''
            then update_ip_addr c action key (index bgpconfig key) host st
            else if field = ''as_num''
            then update_as_num c action (index bgpconfig key) host bgpconfig st
            else (Done, st)))"

text \<open>
  \<open>updateBGPConfig\<close>: the \<open>switch\<close> takes the first case whose prefix test holds. The
  entry is recorded in the history.
\<close>

definition updateBGPConfig ::
  "('w, 'k, 'n) k8sClient \<Rightarrow> action \<Rightarrow> string \<Rightarrow> snapshot \<Rightarrow> 'w state \<Rightarrow> outcome \<times> 'w state" where
  "updateBGPConfig c action key bgpconfig st0 =
     (let st = st0\<lparr>trace := trace st0 @ [Call_updateBGPConfig action key]\<rparr> in
      if HasPrefix key (GlobalBGP c @ ''/peer_'')
      then handleNonMeshNeighbor c action ''global'' (index bgpconfig key) st
      else if HasPrefix key (AllNodes c @ ''/'' @ node c @ ''/peer_'')
      then handleNonMeshNeighbor c action ''node'' (index bgpconfig key) st
      else if HasPrefix key (AllNodes c @ ''/'' @ node c)
      then (Exited, st)
      else if HasPrefix key (AllNodes c)
      then update_node_key c action key bgpconfig st
      else if HasPrefix key (GlobalBGP c @ ''/as_num'')
      then (Exited, st)
      else if HasPrefix key (GlobalBGP c @ ''/node_mesh'')
      then update_node_mesh c st
      else (Done, st))"

section \<open>The peering cycle (checkBGPConfig)\<close>

text \<open>
  \<open>reflect.DeepEqual\<close> on two maps that are not nil: the same number of entries, and
  every key of the first is in the second with the same value.
\<close>

definition DeepEqual :: "snapshot \<Rightarrow> snapshot \<Rightarrow> bool" where
  "DeepEqual a b = (length a = length b \<and> list_all (\<lambda>(k, v). map_of b k = Some v) a)"

text \<open>
  One of the three loops of checkBGPConfig,
  \<open>for _, key := range keys { if err := c.updateBGPConfig(action, key, cfg); err != nil { return err } }\<close>;
  \<open>cfg\<close> reads the snapshot to pass (the fetched one, or the package variable).
\<close>

fun applyKeys ::
  "('w, 'k, 'n) k8sClient \<Rightarrow> action \<Rightarrow> ('w state \<Rightarrow> snapshot) \<Rightarrow> string list \<Rightarrow> 'w state
     \<Rightarrow> outcome \<times> 'w state" where
  "applyKeys c action cfg [] st = (Done, st)"
| "applyKeys c action cfg (key # keys) st =
     (case updateBGPConfig c action key (cfg st) st of
        (Done, st1) \<Rightarrow> applyKeys c action cfg keys st1
      | (r, st1) \<Rightarrow> (r, st1))"

definition checkBGPConfig :: "('w, 'k, 'n) k8sClient \<Rightarrow> 'w state \<Rightarrow> outcome \<times> 'w state" where
  "checkBGPConfig c st =
     (case getBGPConfig c (world st) of
        (Inl e, w) \<Rightarrow> (Done, st\<lparr>world := w\<rparr>)
      | (Inr curBgpconfig, w) \<Rightarrow>
          (let st0 = st\<lparr>world := w\<rparr> in
           if DeepEqual (lastBgpconfig st0) curBgpconfig then (Done, st0)
           else
             (let act = CompareMap (lastBgpconfig st0) curBgpconfig in
              case applyKeys c Act_add (\<lambda>s. curBgpconfig) (Add act) st0 of
                (Done, st1) \<Rightarrow>
                  (case applyKeys c Act_upd (\<lambda>s. curBgpconfig) (Upd act) st1 of
                     (Done, st2) \<Rightarrow>
                       (case applyKeys c Act_del lastBgpconfig (Del act) st2 of
                          (Done, st3) \<Rightarrow> (Done, st3\<lparr>lastBgpconfig := curBgpconfig\<rparr>)
                        | (r, st3) \<Rightarrow> (r, st3))
                   | (r, st2) \<Rightarrow> (r, st2))
              | (r, st1) \<Rightarrow> (r, st1))))"

section \<open>The pool cache (ipamCacheK8s)\<close>

datatype 'p pool_event =
    Call_update string bool
  | Call_updateHandler 'p

text \<open>
  The collaborators of the cache: \<open>json.Unmarshal\<close> into an \<open>ipPool\<close>, the field
  \<open>CIDR\<close> and the method \<open>equal\<close> of \<open>ipPool\<close> (declared outside k8s.go; its argument
  may be nil), the registered handler, and the datastore.
\<close>

record ('w, 'k, 'p) ipamEnv =
  pser :: "'k serializer"
  Unmarshal :: "string \<Rightarrow> string + 'p"
  CIDR :: "'p \<Rightarrow> string"
  equal :: "'p \<Rightarrow> 'p option \<Rightarrow> bool"
  updateHandler :: "('p \<Rightarrow> 'w \<Rightarrow> string option \<times> 'w) option"
  List_IPPool :: "'w \<Rightarrow> (string + 'k list) \<times> 'w"

text \<open>The cache: the table \<open>m\<close>, and \<open>lastIPPool\<close>, the package variable.\<close>

record ('w, 'p) ipamCacheK8s =
  m :: "(string \<times> 'p) list"
  pworld :: 'w
  ptrace :: "'p pool_event list"
  lastIPPool :: snapshot

text \<open>\<open>update\<close> (\<open>updateWrap\<close> passes its arguments on); the log line is recorded.\<close>

definition update ::
  "('w, 'k, 'p) ipamEnv \<Rightarrow> string \<Rightarrow> bool \<Rightarrow> ('w, 'p) ipamCacheK8s
     \<Rightarrow> outcome \<times> ('w, 'p) ipamCacheK8s" where
  "update e ippool del c0 =
     (let c = c0\<lparr>ptrace := ptrace c0 @ [Call_update ippool del]\<rparr> in
      if ippool = [] then (Done, c)
      else
        (case Unmarshal e ippool of
           Inl err \<Rightarrow> (Failed (External err), c)
         | Inr p \<Rightarrow>
             if CIDR e p = [] then (Failed (EmptyCidr ippool), c)
             else if del then (Done, c\<lparr>m := AList.delete (CIDR e p) (m c)\<rparr>)
             else if equal e p (map_of (m c) (CIDR e p)) then (Done, c)
             else
               (let c1 = c\<lparr>m := assign (CIDR e p) p (m c)\<rparr> in
                case updateHandler e of
                  None \<Rightarrow> (Done, c1)
                | Some h \<Rightarrow>
                    (case h p (pworld c1) of
                       (r, w) \<Rightarrow>
                         (fromError r,
                          c1\<lparr>pworld := w, ptrace := ptrace c1 @ [Call_updateHandler p]\<rparr>)))))"

definition getIPPools :: "('w, 'k, 'p) ipamEnv \<Rightarrow> 'w \<Rightarrow> (error + snapshot) \<times> 'w" where
  "getIPPools e w =
     (case List_IPPool e w of
        (Inl err, w1) \<Rightarrow> (Inl (External err), w1)
      | (Inr kvps, w1) \<Rightarrow> (Inr (populateFromKVPairs (pser e) kvps []), w1))"

text \<open>
  One of the two loops of sync,
  \<open>for _, key := range keys { if err := c.updateWrap(pools[key], del); err != nil { return err } }\<close>.
\<close>

fun syncKeys ::
  "('w, 'k, 'p) ipamEnv \<Rightarrow> bool \<Rightarrow> (('w, 'p) ipamCacheK8s \<Rightarrow> snapshot) \<Rightarrow> string list
     \<Rightarrow> ('w, 'p) ipamCacheK8s \<Rightarrow> outcome \<times> ('w, 'p) ipamCacheK8s" where
  "syncKeys e del pools [] c = (Done, c)"
| "syncKeys e del pools (key # keys) c =
     (case update e (index (pools c) key) del c of
        (Done, c1) \<Rightarrow> syncKeys e del pools keys c1
      | (r, c1) \<Rightarrow> (r, c1))"

definition sync ::
  "('w, 'k, 'p) ipamEnv \<Rightarrow> ('w, 'p) ipamCacheK8s \<Rightarrow> outcome \<times> ('w, 'p) ipamCacheK8s" where
  "sync e c =
     (case getIPPools e (pworld c) of
        (Inl err, w) \<Rightarrow> (Failed err, c\<lparr>pworld := w\<rparr>)
      | (Inr currIPPool, w) \<Rightarrow>
          (let c0 = c\<lparr>pworld := w\<rparr> in
           if DeepEqual (lastIPPool c0) currIPPool then (Done, c0)
           else
             (let act = CompareMap (lastIPPool c0) currIPPool in
              case syncKeys e False (\<lambda>s. currIPPool) (Add act @ Upd act) c0 of
                (Done, c1) \<Rightarrow>
                  (case syncKeys e True lastIPPool (Del act) c1 of
                     (Done, c2) \<Rightarrow> (Done, c2\<lparr>lastIPPool := currIPPool\<rparr>)
                   | (r, c2) \<Rightarrow> (r, c2))
              | (r, c1) \<Rightarrow> (r, c1))))"

section \<open>Reading a history\<close>

text \<open>The events a step has added to the history it started from.\<close>

definition since :: "'a list \<Rightarrow> 'a list \<Rightarrow> 'a list" where
  "since old new = drop (length old) new"

text \<open>The entries into \<open>updateBGPConfig\<close> in a history, in order.\<close>

fun dispatched :: "event list \<Rightarrow> (action \<times> string) list" where
  "dispatched [] = []"
| "dispatched (Call_updateBGPConfig a k # es) = (a, k) # dispatched es"
| "dispatched (Call_AddNeighbor n # es) = dispatched es"
| "dispatched (Call_DeleteNeighbor n # es) = dispatched es"

text \<open>The session-manager calls in a history, in order.\<close>

fun session_calls :: "event list \<Rightarrow> event list" where
  "session_calls [] = []"
| "session_calls (Call_updateBGPConfig a k # es) = session_calls es"
| "session_calls (e # es) = e # session_calls es"

text \<open>The calls of \<open>update\<close> and of the handler in a history of the pool cache.\<close>

fun updates :: "'p pool_event list \<Rightarrow> (string \<times> bool) list" where
  "updates [] = []"
| "updates (Call_update s d # es) = (s, d) # updates es"
| "updates (Call_updateHandler p # es) = updates es"

fun handled :: "'p pool_event list \<Rightarrow> 'p list" where
  "handled [] = []"
| "handled (Call_update s d # es) = handled es"
| "handled (Call_updateHandler p # es) = p # handled es"

text \<open>
  A step of the peering cycle that leaves the package variable alone and adds only
  session-manager calls to the history.
\<close>

definition calls_only :: "'w state \<Rightarrow> 'w state \<Rightarrow> bool" where
  "calls_only st st' \<longleftrightarrow>
     lastBgpconfig st' = lastBgpconfig st
     \<and> (\<exists>evs. trace st' = trace st @ evs \<and> dispatched evs = [])"

text \<open>The order in which checkBGPConfig walks a delta, and the one in which sync does.\<close>

definition plan :: "ActionList \<Rightarrow> (action \<times> string) list" where
  "plan act =
     map (Pair Act_add) (Add act) @ map (Pair Act_upd) (Upd act) @ map (Pair Act_del) (Del act)"

definition pool_plan :: "snapshot \<Rightarrow> snapshot \<Rightarrow> ActionList \<Rightarrow> (string \<times> bool) list" where
  "pool_plan lasts currs act =
     map (\<lambda>k. (index currs k, False)) (Add act @ Upd act)
     @ map (\<lambda>k. (index lasts k, True)) (Del act)"

text \<open>
  The keys for which the \<open>switch\<close> of updateBGPConfig arrives at the switch on the last
  path segment (no earlier case matches, and the key has at least four segments), the
  last segment, and the segment before it (the host).
\<close>

definition node_key :: "('w, 'k, 'n) k8sClient \<Rightarrow> string \<Rightarrow> bool" where
  "node_key c key \<longleftrightarrow>
     \<not> HasPrefix key (GlobalBGP c @ ''/peer_'')
     \<and> \<not> HasPrefix key (AllNodes c @ ''/'' @ node c)
     \<and> HasPrefix key (AllNodes c)
     \<and> 4 \<le> length (Split key CHR ''/'')"

definition key_field :: "string \<Rightarrow> string" where
  "key_field key = Split key CHR ''/'' ! (length (Split key CHR ''/'') - 1)"

definition key_host :: "string \<Rightarrow> string" where
  "key_host key = Split key CHR ''/'' ! (length (Split key CHR ''/'') - 2)"

text \<open>
  The session-manager calls that the \<open>"as_num"\<close> branch makes for one address of the
  node: none for the empty address, else a deletion keyed by the address and an addition
  built from the value of the as_num key.
\<close>

definition readd_calls :: "('w, 'k, 'n) k8sClient \<Rightarrow> string \<Rightarrow> 32 word \<Rightarrow> string \<Rightarrow> event list" where
  "readd_calls c val asn ip =
     (if ip = [] then []
      else [Call_DeleteNeighbor \<lparr>NeighborAddress = ip, PeerAs = 0, Description = []\<rparr>,
            Call_AddNeighbor \<lparr>NeighborAddress = val, PeerAs = asn,
                              Description = ''Mesh_'' @ underscore c val\<rparr>])"

section \<open>A concrete installation, to run the model on\<close>

text \<open>
  KVPairs are pairs of a path and a value that serialise to themselves. The outside
  world is one bit: whether the datastore answers.
\<close>

definition demo_ser :: "(string \<times> string) serializer" where
  "demo_ser =
     \<lparr>adaptor_calls = (\<lambda>kvp. [kvp]),
      KeyToDefaultPath = (\<lambda>kvp. Inr (fst kvp)),
      SerializeValue = (\<lambda>kvp. Inr (snd kvp))\<rparr>"

definition demo_underscore :: "string \<Rightarrow> string" where
  "demo_underscore s = map (\<lambda>x. if x = CHR ''.'' \<or> x = CHR '':'' then CHR ''_'' else x) s"

text \<open>
  The local node is \<open>node1\<close>; the datastore holds the KVPairs \<open>kvps\<close>; the session manager
  accepts every call; the AS number of the node \<open>ghost\<close> cannot be resolved.
\<close>

definition demo_client :: "(string \<times> string) list \<Rightarrow> (bool, string \<times> string, unit) k8sClient" where
  "demo_client kvps =
     \<lparr>GlobalBGP = ''/calico/bgp/v1/global'',
      AllNodes = ''/calico/bgp/v1/host'',
      GlobalASN = ''/calico/bgp/v1/global/as_num'',
      GlobalNodeMesh = ''/calico/bgp/v1/global/node_mesh'',
      GlobalLogging = ''/calico/bgp/v1/global/loglevel'',
      node = ''node1'',
      ser = demo_ser,
      AddNeighbor = (\<lambda>n w. (None, w)),
      DeleteNeighbor = (\<lambda>n w. (None, w)),
      getNeighborConfigFromPeer =
        (\<lambda>peer ty. Inr \<lparr>NeighborAddress = peer, PeerAs = 0, Description = ty\<rparr>),
      getPeerASN =
        (\<lambda>host w. (if host = ''ghost'' then Inl ''no AS number for node'' else Inr 65001, w)),
      getNodeASN = (\<lambda>w. (Inr 64512, w)),
      ASNumberFromString =
        (\<lambda>s. if s = ''65002'' then Inr 65002 else Inl ''invalid AS number''),
      underscore = demo_underscore,
      isMeshMode = (\<lambda>w. (Inr True, w)),
      getMeshNeighborConfigs = (\<lambda>w. (Inr [], w)),
      getGlobalNeighborConfigs = (\<lambda>w. (Inr [], w)),
      getNodeSpecificNeighborConfigs = (\<lambda>w. (Inr [], w)),
      List_GlobalBGPConfig = (\<lambda>w. (if w then Inr kvps else Inl ''unreachable'', w)),
      List_GlobalBGPPeer = (\<lambda>w. (Inr [], w)),
      Nodes_List = (\<lambda>w. (Inr [], w)),
      K8sNodeToCalico = (\<lambda>n. Inl ''not a node''),
      ExtractCfg = (\<lambda>n. Inr []),
      ExtractPeers = (\<lambda>n. Inr [])\<rparr>"

definition demo_defaults :: snapshot where
  \<open>demo_defaults =
     [(''/calico/bgp/v1/global/loglevel'', ''info''),
      (''/calico/bgp/v1/global/as_num'', ''64512''),
      (''/calico/bgp/v1/global/node_mesh'', ''{"enabled":true}'')]\<close>

definition demo_state :: "snapshot \<Rightarrow> bool state" where
  "demo_state lasts = \<lparr>world = True, trace = [], lastBgpconfig = lasts\<rparr>"

text \<open>
  Pool entries are written \<open>cidr;attributes\<close>; \<open>equal\<close> is equality with the stored
  entry; the handler accepts every entry.
\<close>

definition demo_ipam :: "(string \<times> string) list \<Rightarrow> (bool, string \<times> string, string \<times> string) ipamEnv" where
  "demo_ipam kvps =
     \<lparr>pser = demo_ser,
      Unmarshal =
        (\<lambda>s. case Split s CHR '';'' of
               [cidr, attrs] \<Rightarrow> Inr (cidr, attrs)
             | _ \<Rightarrow> Inl ''cannot unmarshal''),
      CIDR = fst,
      equal = (\<lambda>p q. q = Some p),
      updateHandler = Some (\<lambda>p w. (None, w)),
      List_IPPool = (\<lambda>w. (if w then Inr kvps else Inl ''unreachable'', w))\<rparr>"

definition demo_cache ::
  "(string \<times> string \<times> string) list \<Rightarrow> snapshot \<Rightarrow> (bool, string \<times> string) ipamCacheK8s" where
  "demo_cache table lasts = \<lparr>m = table, pworld = True, ptrace = [], lastIPPool = lasts\<rparr>"

subsection \<open>What each loop appends\<close>

lemma CompareMap_lasts_Add: "Add (CompareMap_lasts ls cs act) = Add act"
  by (induction ls cs act rule: CompareMap_lasts.induct) (auto split: option.splits)

lemma CompareMap_lasts_Del:
  "Del (CompareMap_lasts ls cs act) = Del act @ [k \<leftarrow> map fst ls. map_of cs k = None]"
  by (induction ls cs act rule: CompareMap_lasts.induct) (auto split: option.splits)

lemma CompareMap_lasts_Upd:
  "Upd (CompareMap_lasts ls cs act) =
     Upd act @ map fst [(k, v) \<leftarrow> ls. map_of cs k \<noteq> None \<and> map_of cs k \<noteq> Some v]"
  by (induction ls cs act rule: CompareMap_lasts.induct) (auto split: option.splits)

lemma CompareMap_lasts_Same:
  "Same (CompareMap_lasts ls cs act) = Same act @ map fst [(k, v) \<leftarrow> ls. map_of cs k = Some v]"
  by (induction ls cs act rule: CompareMap_lasts.induct) (auto split: option.splits)

lemma CompareMap_currs_Add:
  "Add (CompareMap_currs cs ls act) = Add act @ [k \<leftarrow> map fst cs. map_of ls k = None]"
  by (induction cs ls act rule: CompareMap_currs.induct) (auto split: option.splits)

lemma CompareMap_currs_others:
  "Upd (CompareMap_currs cs ls act) = Upd act"
  "Del (CompareMap_currs cs ls act) = Del act"
  "Same (CompareMap_currs cs ls act) = Same act"
  by (induction cs ls act rule: CompareMap_currs.induct) (auto split: option.splits)

lemma Add_CompareMap: "Add (CompareMap A B) = [k \<leftarrow> map fst B. map_of A k = None]"
  by (simp add: CompareMap_def CompareMap_currs_Add CompareMap_lasts_Add)

lemma Del_CompareMap: "Del (CompareMap A B) = [k \<leftarrow> map fst A. map_of B k = None]"
  by (simp add: CompareMap_def CompareMap_currs_others CompareMap_lasts_Del)

lemma Upd_CompareMap:
  "Upd (CompareMap A B) = map fst [(k, v) \<leftarrow> A. map_of B k \<noteq> None \<and> map_of B k \<noteq> Some v]"
  by (simp add: CompareMap_def CompareMap_currs_others CompareMap_lasts_Upd)

lemma Same_CompareMap:
  "Same (CompareMap A B) = map fst [(k, v) \<leftarrow> A. map_of B k = Some v]"
  by (simp add: CompareMap_def CompareMap_currs_others CompareMap_lasts_Same)

lemma set_Add_CompareMap: "set (Add (CompareMap A B)) = dom (map_of B) - dom (map_of A)"
  by (auto simp: Add_CompareMap dom_map_of_conv_image_fst map_of_eq_None_iff)

lemma set_Del_CompareMap: "set (Del (CompareMap A B)) = dom (map_of A) - dom (map_of B)"
  by (auto simp: Del_CompareMap dom_map_of_conv_image_fst map_of_eq_None_iff)

lemma in_set_iff_map_of:
  "distinct (map fst A) \<Longrightarrow> (k, v) \<in> set A \<longleftrightarrow> map_of A k = Some v"
  by (auto intro: map_of_is_SomeI dest: map_of_SomeD)

lemma set_Upd_CompareMap:
  assumes "distinct (map fst A)"
  shows "set (Upd (CompareMap A B)) =
           {k \<in> dom (map_of A) \<inter> dom (map_of B). map_of A k \<noteq> map_of B k}"
proof (rule set_eqI)
  fix k
  have "k \<in> set (Upd (CompareMap A B)) \<longleftrightarrow>
          (\<exists>v. (k, v) \<in> set A \<and> map_of B k \<noteq> None \<and> map_of B k \<noteq> Some v)"
    unfolding Upd_CompareMap by force
  also have "\<dots> \<longleftrightarrow> (\<exists>v. map_of A k = Some v \<and> map_of B k \<noteq> None \<and> map_of B k \<noteq> Some v)"
    by (simp add: in_set_iff_map_of [OF assms])
  also have "\<dots> \<longleftrightarrow> k \<in> {k \<in> dom (map_of A) \<inter> dom (map_of B). map_of A k \<noteq> map_of B k}"
    by (cases "map_of A k"; cases "map_of B k") auto
  finally show "k \<in> set (Upd (CompareMap A B)) \<longleftrightarrow>
      k \<in> {k \<in> dom (map_of A) \<inter> dom (map_of B). map_of A k \<noteq> map_of B k}" .
qed

lemma set_Same_CompareMap:
  assumes "distinct (map fst A)"
  shows "set (Same (CompareMap A B)) =
           {k \<in> dom (map_of A) \<inter> dom (map_of B). map_of A k = map_of B k}"
proof (rule set_eqI)
  fix k
  have "k \<in> set (Same (CompareMap A B)) \<longleftrightarrow> (\<exists>v. (k, v) \<in> set A \<and> map_of B k = Some v)"
    unfolding Same_CompareMap by force
  also have "\<dots> \<longleftrightarrow> (\<exists>v. map_of A k = Some v \<and> map_of B k = Some v)"
    by (simp add: in_set_iff_map_of [OF assms])
  also have "\<dots> \<longleftrightarrow> k \<in> {k \<in> dom (map_of A) \<inter> dom (map_of B). map_of A k = map_of B k}"
    by (cases "map_of A k"; cases "map_of B k") auto
  finally show "k \<in> set (Same (CompareMap A B)) \<longleftrightarrow>
      k \<in> {k \<in> dom (map_of A) \<inter> dom (map_of B). map_of A k = map_of B k}" .
qed

lemma CompareMap_refl:
  assumes "distinct (map fst A)"
  shows "Add (CompareMap A A) = []" "Upd (CompareMap A A) = []" "Del (CompareMap A A) = []"
    "Same (CompareMap A A) = map fst A"
proof -
  have eq: "\<And>k v. (k, v) \<in> set A \<Longrightarrow> map_of A k = Some v"
    using assms by (auto intro: map_of_is_SomeI)
  show "Add (CompareMap A A) = []"
    by (auto simp: Add_CompareMap filter_empty_conv map_of_eq_None_iff)
  show "Del (CompareMap A A) = []"
    by (auto simp: Del_CompareMap filter_empty_conv map_of_eq_None_iff)
  show "Upd (CompareMap A A) = []"
    using eq by (auto simp: Upd_CompareMap filter_empty_conv)
  have "[(k, v) \<leftarrow> A. map_of A k = Some v] = A"
    using eq by (auto simp: filter_id_conv)
  then show "Same (CompareMap A A) = map fst A"
    by (simp add: Same_CompareMap)
qed

text \<open>
  C1. For all snapshots A and B (Go maps, so each key occurs once), CompareMap A B
  splits the union of the two key sets into four pairwise disjoint sets: Del holds the
  keys only in A, Add the keys only in B, Same the keys in both with equal values, Upd
  the keys in both with different values. CompareMap A A has empty Add, Upd and Del, and
  Same lists the keys of A.
\<close>

theorem CompareMap_partition:
  assumes "distinct (map fst A)"
  shows "set (Del (CompareMap A B)) = dom (map_of A) - dom (map_of B)
       \<and> set (Add (CompareMap A B)) = dom (map_of B) - dom (map_of A)
       \<and> set (Same (CompareMap A B)) =
           {k \<in> dom (map_of A) \<inter> dom (map_of B). map_of A k = map_of B k}
       \<and> set (Upd (CompareMap A B)) =
           {k \<in> dom (map_of A) \<inter> dom (map_of B). map_of A k \<noteq> map_of B k}
       \<and> set (Add (CompareMap A B)) \<union> set (Upd (CompareMap A B))
           \<union> set (Del (CompareMap A B)) \<union> set (Same (CompareMap A B))
           = dom (map_of A) \<union> dom (map_of B)
       \<and> set (Add (CompareMap A B)) \<inter> set (Upd (CompareMap A B)) = {}
       \<and> set (Add (CompareMap A B)) \<inter> set (Del (CompareMap A B)) = {}
       \<and> set (Add (CompareMap A B)) \<inter> set (Same (CompareMap A B)) = {}
       \<and> set (Upd (CompareMap A B)) \<inter> set (Del (CompareMap A B)) = {}
       \<and> set (Upd (CompareMap A B)) \<inter> set (Same (CompareMap A B)) = {}
       \<and> set (Del (CompareMap A B)) \<inter> set (Same (CompareMap A B)) = {}
       \<and> Add (CompareMap A A) = [] \<and> Upd (CompareMap A A) = [] \<and> Del (CompareMap A A) = []
       \<and> Same (CompareMap A A) = map fst A"
proof -
  note s = set_Add_CompareMap [of A B] set_Del_CompareMap [of A B]
    set_Upd_CompareMap [OF assms, of B] set_Same_CompareMap [OF assms, of B]
  have u: "set (Add (CompareMap A B)) \<union> set (Upd (CompareMap A B))
           \<union> set (Del (CompareMap A B)) \<union> set (Same (CompareMap A B))
           = dom (map_of A) \<union> dom (map_of B)"
    unfolding s by blast
  have d: "set (Add (CompareMap A B)) \<inter> set (Upd (CompareMap A B)) = {}"
    "set (Add (CompareMap A B)) \<inter> set (Del (CompareMap A B)) = {}"
    "set (Add (CompareMap A B)) \<inter> set (Same (CompareMap A B)) = {}"
    "set (Upd (CompareMap A B)) \<inter> set (Del (CompareMap A B)) = {}"
    "set (Upd (CompareMap A B)) \<inter> set (Same (CompareMap A B)) = {}"
    "set (Del (CompareMap A B)) \<inter> set (Same (CompareMap A B)) = {}"
    unfolding s by blast+
  show ?thesis
    by (intro conjI s u d CompareMap_refl [OF assms])
qed

theorem CompareMap_partition_witness:
  "distinct (map fst [(''a'', ''1''), (''b'', ''2''), (''c'', ''3'')])
   \<and> set (Del (CompareMap [(''a'', ''1''), (''b'', ''2''), (''c'', ''3'')]
                       [(''b'', ''2''), (''c'', ''4''), (''d'', ''5'')]))
       = dom (map_of [(''a'', ''1''), (''b'', ''2''), (''c'', ''3'')])
         - dom (map_of [(''b'', ''2''), (''c'', ''4''), (''d'', ''5'')])"
proof -
  have h: "distinct (map fst [(''a'', ''1''), (''b'', ''2''), (''c'', ''3'')])"
    by simp
  have "set (Del (CompareMap [(''a'', ''1''), (''b'', ''2''), (''c'', ''3'')]
                       [(''b'', ''2''), (''c'', ''4''), (''d'', ''5'')]))
       = dom (map_of [(''a'', ''1''), (''b'', ''2''), (''c'', ''3'')])
         - dom (map_of [(''b'', ''2''), (''c'', ''4''), (''d'', ''5'')])"
    by (rule conjunct1 [OF CompareMap_partition [OF h]])
  with h show ?thesis by (rule conjI)
qed

section \<open>Histories only grow\<close>

lemma since_append [simp]: "since xs (xs @ ys) = ys"
  by (simp add: since_def)

lemma since_self [simp]: "since xs xs = []"
  by (simp add: since_def)

lemma dispatched_append [simp]: "dispatched (xs @ ys) = dispatched xs @ dispatched ys"
  by (induction xs rule: dispatched.induct) simp_all

lemma session_calls_append [simp]:
  "session_calls (xs @ ys) = session_calls xs @ session_calls ys"
  by (induction xs rule: session_calls.induct) simp_all

lemma updates_append [simp]: "updates (xs @ ys) = updates xs @ updates ys"
  by (induction xs rule: updates.induct) simp_all

lemma handled_append [simp]: "handled (xs @ ys) = handled xs @ handled ys"
  by (induction xs rule: handled.induct) simp_all

lemma calls_only_refl [simp]: "calls_only st st"
  by (simp add: calls_only_def)

lemma calls_only_world [simp]: "calls_only st (st\<lparr>world := w\<rparr>)"
  by (simp add: calls_only_def)

lemma calls_only_trans: "calls_only st st1 \<Longrightarrow> calls_only st1 st2 \<Longrightarrow> calls_only st st2"
  by (auto simp: calls_only_def)

lemma calls_only_world_trans: "calls_only (st\<lparr>world := w\<rparr>) st' \<Longrightarrow> calls_only st st'"
  by (auto simp: calls_only_def)

lemma calls_only_AddNeighbor: "calls_only st (snd (bgpServer_AddNeighbor c n st))"
  by (simp add: calls_only_def bgpServer_AddNeighbor_def split: prod.splits)

lemma calls_only_DeleteNeighbor: "calls_only st (snd (bgpServer_DeleteNeighbor c n st))"
  by (simp add: calls_only_def bgpServer_DeleteNeighbor_def split: prod.splits)

lemma calls_only_handleNonMeshNeighbor:
  "calls_only st (snd (handleNonMeshNeighbor c a ty peer st))"
  by (simp add: handleNonMeshNeighbor_def calls_only_AddNeighbor calls_only_DeleteNeighbor
      split: sum.splits action.splits)

lemma calls_only_deleteNeighbor: "calls_only st (snd (deleteNeighbor c address st))"
  by (simp add: deleteNeighbor_def calls_only_DeleteNeighbor)

lemma calls_only_update_ip_addr: "calls_only st (snd (update_ip_addr c a key val host st))"
proof -
  have del: "\<And>x. calls_only st (snd (deleteNeighbor c x st))"
    by (rule calls_only_deleteNeighbor)
  have add: "\<And>st1 w n. calls_only st st1 \<Longrightarrow>
      calls_only st (snd (bgpServer_AddNeighbor c n (st1\<lparr>world := w\<rparr>)))"
    by (rule calls_only_trans [OF _ calls_only_world_trans [OF calls_only_AddNeighbor]])
  have rest: "\<And>st1. calls_only st st1 \<Longrightarrow>
      calls_only st (snd (if val = [] then (Done, st1)
               else
                 (case getPeerASN c host (world st1) of
                    (Inl e, w) \<Rightarrow> (Failed (External e), st1\<lparr>world := w\<rparr>)
                  | (Inr asn, w) \<Rightarrow>
                      bgpServer_AddNeighbor c (meshNeighbor c val asn) (st1\<lparr>world := w\<rparr>))))"
    by (auto split: prod.splits sum.splits intro: add calls_only_trans [OF _ calls_only_world])
  show ?thesis
  proof (cases a)
    case Act_add
    then show ?thesis using rest [of st] by (simp add: update_ip_addr_def)
  next
    case Act_upd
    obtain r st1 where d: "deleteNeighbor c (index (lastBgpconfig st) key) st = (r, st1)"
      by (cases "deleteNeighbor c (index (lastBgpconfig st) key) st")
    then have "calls_only st st1" using del [of "index (lastBgpconfig st) key"] by simp
    then show ?thesis using Act_upd d rest [of st1]
      by (cases r) (simp_all add: update_ip_addr_def)
  next
    case Act_del
    then show ?thesis using del by (simp add: update_ip_addr_def)
  next
    case Act_same
    then show ?thesis by (simp add: update_ip_addr_def)
  qed
qed

lemma calls_only_as_num_versions:
  "calls_only st (snd (as_num_versions c val asn host cfg vs st))"
proof (induction vs arbitrary: st)
  case Nil
  show ?case by simp
next
  case (Cons v vs)
  show ?case
  proof (cases "map_of cfg (AllNodes c @ ''/'' @ host @ ''/ip_addr_'' @ v)")
    case None
    then show ?thesis by simp
  next
    case (Some ip)
    show ?thesis
    proof (cases "ip = []")
      case True
      then show ?thesis using Some Cons.IH by simp
    next
      case False
      obtain r1 st1 where d: "deleteNeighbor c ip st = (r1, st1)"
        by (cases "deleteNeighbor c ip st")
      then have c1: "calls_only st st1" using calls_only_deleteNeighbor [of st c ip] by simp
      obtain r2 st2 where a: "bgpServer_AddNeighbor c (meshNeighbor c val asn) st1 = (r2, st2)"
        by (cases "bgpServer_AddNeighbor c (meshNeighbor c val asn) st1")
      then have c2: "calls_only st st2"
        using calls_only_AddNeighbor [of st1 c "meshNeighbor c val asn"] c1
        by (auto intro: calls_only_trans)
      have c3: "calls_only st (snd (as_num_versions c val asn host cfg vs st2))"
        using c2 Cons.IH [of st2] by (rule calls_only_trans)
      show ?thesis using Some False d a c1 c2 c3
        by (cases r1; cases r2) simp_all
    qed
  qed
qed

lemma calls_only_update_as_num: "calls_only st (snd (update_as_num c a val host cfg st))"
  unfolding update_as_num_def
  by (auto simp del: as_num_versions.simps split: prod.splits sum.splits
      intro: calls_only_as_num_versions calls_only_world_trans [OF calls_only_as_num_versions])

lemma calls_only_mesh_neighbors: "calls_only st (snd (mesh_neighbors c mesh ns st))"
proof (induction ns arbitrary: st)
  case Nil
  show ?case by simp
next
  case (Cons n ns)
  obtain r st1 where s: "(if mesh then bgpServer_AddNeighbor c n st
      else bgpServer_DeleteNeighbor c n st) = (r, st1)"
    by (cases "if mesh then bgpServer_AddNeighbor c n st else bgpServer_DeleteNeighbor c n st")
  then have c1: "calls_only st st1"
    using calls_only_AddNeighbor [of st c n] calls_only_DeleteNeighbor [of st c n]
    by (auto split: if_splits)
  have "calls_only st (snd (mesh_neighbors c mesh ns st1))"
    using c1 Cons.IH [of st1] by (rule calls_only_trans)
  then show ?case using s c1 by (cases r) simp_all
qed

lemma calls_only_update_node_mesh: "calls_only st (snd (update_node_mesh c st))"
  unfolding update_node_mesh_def
  by (auto simp del: mesh_neighbors.simps split: prod.splits sum.splits
      intro: calls_only_mesh_neighbors calls_only_world_trans [OF calls_only_mesh_neighbors])

lemma calls_only_update_node_key: "calls_only st (snd (update_node_key c a key cfg st))"
  by (simp add: update_node_key_def Let_def calls_only_update_ip_addr calls_only_update_as_num)

text \<open>
  A call of updateBGPConfig records its entry, then only calls the session manager; it
  never writes the baseline.
\<close>

lemma updateBGPConfig_frame:
  "calls_only (st\<lparr>trace := trace st @ [Call_updateBGPConfig a key]\<rparr>)
     (snd (updateBGPConfig c a key cfg st))"
  by (simp add: updateBGPConfig_def Let_def calls_only_handleNonMeshNeighbor
      calls_only_update_node_key calls_only_update_node_mesh)

lemma updateBGPConfig_trace:
  assumes "updateBGPConfig c a key cfg st = (r, st')"
  shows "lastBgpconfig st' = lastBgpconfig st"
    and "\<exists>evs. trace st' = trace st @ Call_updateBGPConfig a key # evs \<and> dispatched evs = []"
  using updateBGPConfig_frame [of st a key c cfg] assms
  by (auto simp: calls_only_def)

section \<open>Snapshots built by the fetch are Go maps\<close>

lemma distinct_assign [simp]: "distinct (map fst (assign k v vs)) = distinct (map fst vs)"
  by (simp add: assign_def update_keys)

lemma map_of_assign [simp]: "map_of (assign k v vs) = (map_of vs)(k \<mapsto> v)"
  by (simp add: assign_def update_conv')

lemma dom_assign: "dom (map_of (assign k v vs)) = insert k (dom (map_of vs))"
  by simp

lemma etcdVarClient_Apply_distinct:
  "distinct (map fst (snd (etcdVarClient_Apply s k vs))) = distinct (map fst vs)"
  by (simp add: etcdVarClient_Apply_def split: sum.splits)

lemma etcdVarClient_Apply_dom:
  "dom (map_of vs) \<subseteq> dom (map_of (snd (etcdVarClient_Apply s k vs)))"
  by (auto simp: etcdVarClient_Apply_def split: sum.splits)

lemma foldl_Apply_distinct:
  "distinct (map fst (foldl (\<lambda>v k. snd (etcdVarClient_Apply s k v)) vs ks))
     = distinct (map fst vs)"
  by (induction ks arbitrary: vs) (simp_all add: etcdVarClient_Apply_distinct)

lemma foldl_Apply_dom:
  "dom (map_of vs) \<subseteq> dom (map_of (foldl (\<lambda>v k. snd (etcdVarClient_Apply s k v)) vs ks))"
proof (induction ks arbitrary: vs)
  case Nil
  show ?case by simp
next
  case (Cons k ks)
  show ?case
    using etcdVarClient_Apply_dom [of vs s k] Cons.IH [of "snd (etcdVarClient_Apply s k vs)"]
    by simp
qed

text \<open>populateFromKVPairs is a sequence of \<open>etcdVarClient.Apply\<close> calls on the map.\<close>

lemma populateFromKVPairs_foldl:
  "populateFromKVPairs s kvps vs =
     foldl (\<lambda>v k. snd (etcdVarClient_Apply s k v)) vs (concat (map (adaptor_calls s) kvps))"
  unfolding populateFromKVPairs_def
  by (induction kvps arbitrary: vs) simp_all

lemma populateFromKVPairs_distinct [simp]:
  "distinct (map fst (populateFromKVPairs s kvps vs)) = distinct (map fst vs)"
  by (simp add: populateFromKVPairs_foldl foldl_Apply_distinct)

lemma populateFromKVPairs_dom:
  "dom (map_of vs) \<subseteq> dom (map_of (populateFromKVPairs s kvps vs))"
  by (simp add: populateFromKVPairs_foldl foldl_Apply_dom)

lemma populateNodes_foldl:
  "populateNodes c ns vs = Inr cfg \<Longrightarrow>
     \<exists>ks. cfg = foldl (\<lambda>v k. snd (etcdVarClient_Apply (ser c) k v)) vs ks"
proof (induction ns arbitrary: vs)
  case Nil
  then have "cfg = foldl (\<lambda>v k. snd (etcdVarClient_Apply (ser c) k v)) vs []" by simp
  then show ?case by blast
next
  case (Cons n ns)
  from Cons.prems obtain vs' where d: "populateNodeDetails c n vs = Inr vs'"
    and r: "populateNodes c ns vs' = Inr cfg"
    by (auto split: sum.splits)
  from d obtain kvps where "vs' = populateFromKVPairs (ser c) kvps vs"
    by (auto simp: populateNodeDetails_def split: sum.splits)
  then obtain ks1 where k1: "vs' = foldl (\<lambda>v k. snd (etcdVarClient_Apply (ser c) k v)) vs ks1"
    unfolding populateFromKVPairs_foldl by blast
  from Cons.IH [OF r] obtain ks2
    where "cfg = foldl (\<lambda>v k. snd (etcdVarClient_Apply (ser c) k v)) vs' ks2" by blast
  with k1 have "cfg = foldl (\<lambda>v k. snd (etcdVarClient_Apply (ser c) k v)) vs (ks1 @ ks2)"
    by simp
  then show ?case by blast
qed

text \<open>
  A snapshot that getBGPConfig returns is the map of defaults with a sequence of
  \<open>etcdVarClient.Apply\<close> calls on top of it.
\<close>

lemma getBGPConfig_foldl:
  assumes "getBGPConfig c w = (Inr cfg, w')"
  shows "\<exists>ks. cfg = foldl (\<lambda>v k. snd (etcdVarClient_Apply (ser c) k v)) (bgpconfig_defaults c) ks"
proof -
  from assms obtain kvps kvps' ns where
    "populateNodes c ns (populateFromKVPairs (ser c) kvps'
         (populateFromKVPairs (ser c) kvps (bgpconfig_defaults c))) = Inr cfg"
    by (auto simp: getBGPConfig_def split: prod.splits sum.splits)
  from populateNodes_foldl [OF this] obtain ks where
    "cfg = foldl (\<lambda>v k. snd (etcdVarClient_Apply (ser c) k v))
       (populateFromKVPairs (ser c) kvps'
         (populateFromKVPairs (ser c) kvps (bgpconfig_defaults c))) ks" by blast
  then have "cfg = foldl (\<lambda>v k. snd (etcdVarClient_Apply (ser c) k v)) (bgpconfig_defaults c)
      (concat (map (adaptor_calls (ser c)) kvps) @ concat (map (adaptor_calls (ser c)) kvps') @ ks)"
    by (simp add: populateFromKVPairs_foldl)
  then show ?thesis by blast
qed

lemma getBGPConfig_distinct:
  assumes "getBGPConfig c w = (Inr cfg, w')"
  shows "distinct (map fst cfg)"
proof -
  from getBGPConfig_foldl [OF assms] obtain ks where
    "cfg = foldl (\<lambda>v k. snd (etcdVarClient_Apply (ser c) k v)) (bgpconfig_defaults c) ks" by blast
  then show ?thesis by (simp add: foldl_Apply_distinct bgpconfig_defaults_def)
qed

lemma getIPPools_distinct:
  assumes "getIPPools e w = (Inr pools, w')"
  shows "distinct (map fst pools)"
  using assms by (auto simp: getIPPools_def split: prod.splits sum.splits)

section \<open>DeepEqual on Go maps is equality of the maps\<close>

lemma length_eq_card_dom:
  "distinct (map fst a) \<Longrightarrow> length a = card (dom (map_of a))"
  by (simp add: dom_map_of_conv_image_fst distinct_card flip: set_map)

lemma DeepEqual_iff:
  assumes a: "distinct (map fst a)" and b: "distinct (map fst b)"
  shows "DeepEqual a b \<longleftrightarrow> map_of a = map_of b"
proof
  assume d: "DeepEqual a b"
  then have len: "length a = length b"
    and sub: "\<And>k v. (k, v) \<in> set a \<Longrightarrow> map_of b k = Some v"
    by (auto simp: DeepEqual_def list_all_iff)
  have incl: "\<And>k v. map_of a k = Some v \<Longrightarrow> map_of b k = Some v"
    using sub by (auto dest: map_of_SomeD)
  then have "dom (map_of a) \<subseteq> dom (map_of b)" by (auto simp: domIff)
  moreover have "card (dom (map_of a)) = card (dom (map_of b))"
    using len length_eq_card_dom [OF a] length_eq_card_dom [OF b] by simp
  ultimately have doms: "dom (map_of a) = dom (map_of b)"
    by (simp add: card_subset_eq finite_dom_map_of)
  show "map_of a = map_of b"
  proof
    fix k
    show "map_of a k = map_of b k"
    proof (cases "map_of a k")
      case None
      then have "k \<notin> dom (map_of b)" using doms by (auto simp: domIff)
      then show ?thesis using None by (simp add: domIff)
    next
      case (Some v)
      then show ?thesis using incl by simp
    qed
  qed
next
  assume e: "map_of a = map_of b"
  have "length a = length b"
    using length_eq_card_dom [OF a] length_eq_card_dom [OF b] e by simp
  moreover have "\<And>k v. (k, v) \<in> set a \<Longrightarrow> map_of b k = Some v"
    using a e by (metis map_of_is_SomeI)
  ultimately show "DeepEqual a b"
    by (auto simp: DeepEqual_def list_all_iff)
qed

section \<open>The loops of a cycle\<close>

lemma applyKeys_frame:
  assumes "applyKeys c a cfg ks st = (r, st')"
  shows "lastBgpconfig st' = lastBgpconfig st
       \<and> (\<exists>evs. trace st' = trace st @ evs
              \<and> prefix (dispatched evs) (map (Pair a) ks)
              \<and> (r = Done \<longrightarrow> dispatched evs = map (Pair a) ks))"
  using assms
proof (induction ks arbitrary: st)
  case Nil
  then show ?case by simp
next
  case (Cons k ks)
  obtain r1 st1 where u: "updateBGPConfig c a k (cfg st) st = (r1, st1)"
    by (cases "updateBGPConfig c a k (cfg st) st")
  from updateBGPConfig_trace [OF u] obtain evs1 where
    l1: "lastBgpconfig st1 = lastBgpconfig st" and
    t1: "trace st1 = trace st @ Call_updateBGPConfig a k # evs1" and
    d1: "dispatched evs1 = []" by blast
  show ?case
  proof (cases "r1 = Done")
    case True
    with Cons.prems u have rest: "applyKeys c a cfg ks st1 = (r, st')" by simp
    from Cons.IH [OF rest] obtain evs2 where
      l2: "lastBgpconfig st' = lastBgpconfig st1" and
      t2: "trace st' = trace st1 @ evs2" and
      p2: "prefix (dispatched evs2) (map (Pair a) ks)" and
      e2: "r = Done \<longrightarrow> dispatched evs2 = map (Pair a) ks" by blast
    have "trace st' = trace st @ (Call_updateBGPConfig a k # evs1 @ evs2)"
      using t1 t2 by simp
    moreover have "dispatched (Call_updateBGPConfig a k # evs1 @ evs2) = (a, k) # dispatched evs2"
      using d1 by simp
    ultimately show ?thesis using l1 l2 p2 e2 by auto
  next
    case False
    with Cons.prems u have "r = r1" "st' = st1" by (cases r1; simp)+
    then show ?thesis using l1 t1 d1 False by auto
  qed
qed

text \<open>
  A loop that does not return \<open>nil\<close> returns what the action of one key returned, in the
  state that action left: the keys after it are not visited.
\<close>

lemma applyKeys_abort:
  assumes "applyKeys c a cfg ks st = (r, st')" and "r \<noteq> Done"
  shows "\<exists>ks1 k ks2 st1. ks = ks1 @ k # ks2
           \<and> applyKeys c a cfg ks1 st = (Done, st1)
           \<and> updateBGPConfig c a k (cfg st1) st1 = (r, st')"
  using assms
proof (induction ks arbitrary: st)
  case Nil
  then show ?case by simp
next
  case (Cons k ks)
  obtain r1 st1 where u: "updateBGPConfig c a k (cfg st) st = (r1, st1)"
    by (cases "updateBGPConfig c a k (cfg st) st")
  show ?case
  proof (cases "r1 = Done")
    case True
    with Cons.prems u have rest: "applyKeys c a cfg ks st1 = (r, st')" by simp
    from Cons.IH [OF rest Cons.prems(2)] obtain ks1 k' ks2 st2 where
      "ks = ks1 @ k' # ks2" "applyKeys c a cfg ks1 st1 = (Done, st2)"
      "updateBGPConfig c a k' (cfg st2) st2 = (r, st')" by blast
    then have "k # ks = (k # ks1) @ k' # ks2 \<and> applyKeys c a cfg (k # ks1) st = (Done, st2)
        \<and> updateBGPConfig c a k' (cfg st2) st2 = (r, st')"
      using u True by simp
    then show ?thesis by blast
  next
    case False
    with Cons.prems u have "r = r1" "st' = st1" by (cases r1; simp)+
    then have "k # ks = [] @ k # ks \<and> applyKeys c a cfg [] st = (Done, st)
        \<and> updateBGPConfig c a k (cfg st) st = (r, st')"
      using u by simp
    then show ?thesis by blast
  qed
qed

lemma no_del_in_prefix_of_map:
  "prefix ds (map (Pair a) ks) \<Longrightarrow> a \<noteq> b \<Longrightarrow> (b, k) \<notin> set ds"
  by (auto dest!: set_mono_prefix)

text \<open>What a peering cycle whose fetch succeeded leaves behind.\<close>

lemma checkBGPConfig_fetched:
  assumes f: "getBGPConfig c (world st) = (Inr cur, w)"
    and r: "checkBGPConfig c st = (r, st')"
  shows "(r = Done \<longrightarrow> lastBgpconfig st' = cur
            \<or> (lastBgpconfig st' = lastBgpconfig st \<and> DeepEqual (lastBgpconfig st) cur))
       \<and> (r \<noteq> Done \<longrightarrow> lastBgpconfig st' = lastBgpconfig st
            \<and> \<not> DeepEqual (lastBgpconfig st) cur)
       \<and> (\<exists>evs. trace st' = trace st @ evs
              \<and> prefix (dispatched evs) (plan (CompareMap (lastBgpconfig st) cur))
              \<and> ((\<exists>k. (Act_del, k) \<in> set (dispatched evs)) \<longrightarrow>
                   prefix (map (Pair Act_add) (Add (CompareMap (lastBgpconfig st) cur))
                           @ map (Pair Act_upd) (Upd (CompareMap (lastBgpconfig st) cur)))
                     (dispatched evs)))"
proof (cases "DeepEqual (lastBgpconfig st) cur")
  case True
  with f r have "r = Done" "st' = st\<lparr>world := w\<rparr>"
    by (auto simp: checkBGPConfig_def)
  then have "trace st' = trace st @ []" "lastBgpconfig st' = lastBgpconfig st" by simp_all
  then show ?thesis using True \<open>r = Done\<close> by (metis dispatched.simps(1) empty_iff list.set(1) prefix_bot.extremum)
next
  case False
  define st0 where "st0 = st\<lparr>world := w\<rparr>"
  define act where "act = CompareMap (lastBgpconfig st) cur"
  have st0: "lastBgpconfig st0 = lastBgpconfig st" "trace st0 = trace st"
    by (simp_all add: st0_def)
  obtain r1 st1 where a1: "applyKeys c Act_add (\<lambda>s. cur) (Add act) st0 = (r1, st1)"
    by (cases "applyKeys c Act_add (\<lambda>s. cur) (Add act) st0")
  obtain r2 st2 where a2: "applyKeys c Act_upd (\<lambda>s. cur) (Upd act) st1 = (r2, st2)"
    by (cases "applyKeys c Act_upd (\<lambda>s. cur) (Upd act) st1")
  obtain r3 st3 where a3: "applyKeys c Act_del lastBgpconfig (Del act) st2 = (r3, st3)"
    by (cases "applyKeys c Act_del lastBgpconfig (Del act) st2")
  from applyKeys_frame [OF a1] obtain e1 where
    l1: "lastBgpconfig st1 = lastBgpconfig st0" and t1: "trace st1 = trace st0 @ e1" and
    p1: "prefix (dispatched e1) (map (Pair Act_add) (Add act))" and
    d1: "r1 = Done \<longrightarrow> dispatched e1 = map (Pair Act_add) (Add act)" by blast
  from applyKeys_frame [OF a2] obtain e2 where
    l2: "lastBgpconfig st2 = lastBgpconfig st1" and t2: "trace st2 = trace st1 @ e2" and
    p2: "prefix (dispatched e2) (map (Pair Act_upd) (Upd act))" and
    d2: "r2 = Done \<longrightarrow> dispatched e2 = map (Pair Act_upd) (Upd act)" by blast
  from applyKeys_frame [OF a3] obtain e3 where
    l3: "lastBgpconfig st3 = lastBgpconfig st2" and t3: "trace st3 = trace st2 @ e3" and
    p3: "prefix (dispatched e3) (map (Pair Act_del) (Del act))" and
    d3: "r3 = Done \<longrightarrow> dispatched e3 = map (Pair Act_del) (Del act)" by blast
  have unfold: "checkBGPConfig c st =
      (case (r1, st1) of (Done, s1) \<Rightarrow>
         (case (r2, st2) of (Done, s2) \<Rightarrow>
            (case (r3, st3) of (Done, s3) \<Rightarrow> (Done, s3\<lparr>lastBgpconfig := cur\<rparr>)
             | (x, s3) \<Rightarrow> (x, s3))
          | (x, s2) \<Rightarrow> (x, s2))
       | (x, s1) \<Rightarrow> (x, s1))"
    using f False a1 a2 a3
    by (simp add: checkBGPConfig_def st0_def act_def Let_def split: outcome.splits)
  show ?thesis
  proof (cases "r1 = Done")
    case r1: False
    then have res: "r = r1" "st' = st1" using r unfold by (cases r1; simp)+
    have "(Act_del, k) \<notin> set (dispatched e1)" for k
      using no_del_in_prefix_of_map [OF p1] by simp
    moreover have "prefix (dispatched e1) (plan act)"
      using p1 by (simp add: plan_def prefix_prefix)
    ultimately show ?thesis
      using res r1 l1 t1 st0 False unfolding act_def by auto
  next
    case r1: True
    show ?thesis
    proof (cases "r2 = Done")
      case r2: False
      then have res: "r = r2" "st' = st2" using r unfold r1 by (cases r2; simp)+
      have tr: "trace st' = trace st @ (e1 @ e2)" using res t1 t2 st0 by simp
      have disp: "dispatched (e1 @ e2) = map (Pair Act_add) (Add act) @ dispatched e2"
        using d1 r1 by simp
      have nodel: "(Act_del, k) \<notin> set (dispatched (e1 @ e2))" for k
        using no_del_in_prefix_of_map [OF p2, of Act_del k] disp by auto
      have "prefix (dispatched (e1 @ e2)) (plan act)"
        using p2 disp by (simp add: plan_def prefix_prefix)
      then show ?thesis
        using res r2 l1 l2 tr st0 False nodel unfolding act_def by auto
    next
      case r2: True
      have tr3: "trace st3 = trace st @ (e1 @ e2 @ e3)" using t1 t2 t3 st0 by simp
      have disp: "dispatched (e1 @ e2 @ e3) =
          map (Pair Act_add) (Add act) @ map (Pair Act_upd) (Upd act) @ dispatched e3"
        using d1 d2 r1 r2 by simp
      have pre: "prefix (dispatched (e1 @ e2 @ e3)) (plan act)"
        unfolding disp plan_def using p3 by simp
      have ord: "prefix (map (Pair Act_add) (Add act) @ map (Pair Act_upd) (Upd act))
          (dispatched (e1 @ e2 @ e3))"
        unfolding disp by (simp add: prefix_def)
      show ?thesis
      proof (cases "r3 = Done")
        case r3: False
        then have res: "r = r3" "st' = st3" using r unfold r1 r2 by (cases r3; simp)+
        show ?thesis
          using res r3 l1 l2 l3 tr3 st0 False pre ord unfolding act_def by auto
      next
        case r3: True
        then have res: "r = Done" "st' = st3\<lparr>lastBgpconfig := cur\<rparr>"
          using r unfold r1 r2 by simp_all
        have "trace st' = trace st @ (e1 @ e2 @ e3)" using res tr3 by simp
        then show ?thesis
          using res pre ord unfolding act_def by auto
      qed
    qed
  qed
qed

lemma checkBGPConfig_fetch_failed:
  assumes "getBGPConfig c (world st) = (Inl e, w)"
  shows "checkBGPConfig c st = (Done, st\<lparr>world := w\<rparr>)"
  using assms by (simp add: checkBGPConfig_def)

section \<open>The pool cache and its cycle\<close>

text \<open>
  Every case of \<open>update\<close>: what it returns, what it does to the table, and what it adds
  to the history after the log line.
\<close>

lemma update_cases:
  "update e ippool del c =
     (if ippool = [] then (Done, c\<lparr>ptrace := ptrace c @ [Call_update ippool del]\<rparr>)
      else case Unmarshal e ippool of
        Inl err \<Rightarrow> (Failed (External err), c\<lparr>ptrace := ptrace c @ [Call_update ippool del]\<rparr>)
      | Inr p \<Rightarrow>
          if CIDR e p = []
          then (Failed (EmptyCidr ippool), c\<lparr>ptrace := ptrace c @ [Call_update ippool del]\<rparr>)
          else if del
          then (Done, c\<lparr>ptrace := ptrace c @ [Call_update ippool del],
                        m := AList.delete (CIDR e p) (m c)\<rparr>)
          else if equal e p (map_of (m c) (CIDR e p))
          then (Done, c\<lparr>ptrace := ptrace c @ [Call_update ippool del]\<rparr>)
          else case updateHandler e of
            None \<Rightarrow> (Done, c\<lparr>ptrace := ptrace c @ [Call_update ippool del],
                              m := assign (CIDR e p) p (m c)\<rparr>)
          | Some h \<Rightarrow>
              (fromError (fst (h p (pworld c))),
               c\<lparr>ptrace := ptrace c @ [Call_update ippool del, Call_updateHandler p],
                 m := assign (CIDR e p) p (m c),
                 pworld := snd (h p (pworld c))\<rparr>))"
  by (simp add: update_def Let_def split: sum.splits option.splits prod.splits)

lemma update_frame:
  assumes "update e ippool del c = (r, c')"
  shows "lastIPPool c' = lastIPPool c"
    and "\<exists>evs. ptrace c' = ptrace c @ Call_update ippool del # evs \<and> updates evs = []"
  using assms unfolding update_cases
  by (auto split: if_splits sum.splits option.splits)

lemma syncKeys_frame:
  assumes "syncKeys e del pools ks c = (r, c')"
    and "\<And>c1 c2. lastIPPool c2 = lastIPPool c1 \<Longrightarrow> pools c2 = pools c1"
  shows "lastIPPool c' = lastIPPool c
       \<and> (\<exists>evs. ptrace c' = ptrace c @ evs
              \<and> prefix (updates evs) (map (\<lambda>k. (index (pools c) k, del)) ks)
              \<and> (r = Done \<longrightarrow> updates evs = map (\<lambda>k. (index (pools c) k, del)) ks))"
  using assms(1)
proof (induction ks arbitrary: c)
  case Nil
  then show ?case by simp
next
  case (Cons k ks)
  obtain r1 c1 where u: "update e (index (pools c) k) del c = (r1, c1)"
    by (cases "update e (index (pools c) k) del c")
  from update_frame [OF u] obtain evs1 where
    l1: "lastIPPool c1 = lastIPPool c" and
    t1: "ptrace c1 = ptrace c @ Call_update (index (pools c) k) del # evs1" and
    d1: "updates evs1 = []" by blast
  have same: "pools c1 = pools c" using assms(2) [OF l1] .
  show ?case
  proof (cases "r1 = Done")
    case True
    with Cons.prems u have rest: "syncKeys e del pools ks c1 = (r, c')" by simp
    from Cons.IH [OF rest] obtain evs2 where
      l2: "lastIPPool c' = lastIPPool c1" and
      t2: "ptrace c' = ptrace c1 @ evs2" and
      p2: "prefix (updates evs2) (map (\<lambda>k. (index (pools c1) k, del)) ks)" and
      e2: "r = Done \<longrightarrow> updates evs2 = map (\<lambda>k. (index (pools c1) k, del)) ks" by blast
    have "ptrace c' = ptrace c @ (Call_update (index (pools c) k) del # evs1 @ evs2)"
      using t1 t2 by simp
    moreover have "updates (Call_update (index (pools c) k) del # evs1 @ evs2)
        = (index (pools c) k, del) # updates evs2"
      using d1 by simp
    ultimately show ?thesis using l1 l2 p2 e2 same by auto
  next
    case False
    with Cons.prems u have "r = r1" "c' = c1" by (cases r1; simp)+
    then show ?thesis using l1 t1 d1 False by auto
  qed
qed

lemma syncKeys_abort:
  assumes "syncKeys e del pools ks c = (r, c')" and "r \<noteq> Done"
  shows "\<exists>ks1 k ks2 c1. ks = ks1 @ k # ks2
           \<and> syncKeys e del pools ks1 c = (Done, c1)
           \<and> update e (index (pools c1) k) del c1 = (r, c')"
  using assms
proof (induction ks arbitrary: c)
  case Nil
  then show ?case by simp
next
  case (Cons k ks)
  obtain r1 c1 where u: "update e (index (pools c) k) del c = (r1, c1)"
    by (cases "update e (index (pools c) k) del c")
  show ?case
  proof (cases "r1 = Done")
    case True
    with Cons.prems u have rest: "syncKeys e del pools ks c1 = (r, c')" by simp
    from Cons.IH [OF rest Cons.prems(2)] obtain ks1 k' ks2 c2 where
      "ks = ks1 @ k' # ks2" "syncKeys e del pools ks1 c1 = (Done, c2)"
      "update e (index (pools c2) k') del c2 = (r, c')" by blast
    then have "k # ks = (k # ks1) @ k' # ks2 \<and> syncKeys e del pools (k # ks1) c = (Done, c2)
        \<and> update e (index (pools c2) k') del c2 = (r, c')"
      using u True by simp
    then show ?thesis by blast
  next
    case False
    with Cons.prems u have "r = r1" "c' = c1" by (cases r1; simp)+
    then have "k # ks = [] @ k # ks \<and> syncKeys e del pools [] c = (Done, c)
        \<and> update e (index (pools c) k) del c = (r, c')"
      using u by simp
    then show ?thesis by blast
  qed
qed

lemma no_True_in_prefix_of_map:
  "prefix ds (map (\<lambda>k. (f k, False)) ks) \<Longrightarrow> (s, True) \<notin> set ds"
  by (auto dest!: set_mono_prefix)

text \<open>What a pool cycle whose fetch succeeded leaves behind.\<close>

lemma sync_fetched:
  assumes f: "getIPPools e (pworld c) = (Inr cur, w)"
    and r: "sync e c = (r, c')"
  shows "(r = Done \<longrightarrow> lastIPPool c' = cur
            \<or> (lastIPPool c' = lastIPPool c \<and> DeepEqual (lastIPPool c) cur))
       \<and> (r \<noteq> Done \<longrightarrow> lastIPPool c' = lastIPPool c \<and> \<not> DeepEqual (lastIPPool c) cur)
       \<and> (\<exists>evs. ptrace c' = ptrace c @ evs
              \<and> prefix (updates evs)
                   (pool_plan (lastIPPool c) cur (CompareMap (lastIPPool c) cur))
              \<and> ((\<exists>s. (s, True) \<in> set (updates evs)) \<longrightarrow>
                   prefix (map (\<lambda>k. (index cur k, False))
                             (Add (CompareMap (lastIPPool c) cur)
                              @ Upd (CompareMap (lastIPPool c) cur)))
                     (updates evs)))"
proof (cases "DeepEqual (lastIPPool c) cur")
  case True
  with f r have res: "r = Done" "c' = c\<lparr>pworld := w\<rparr>"
    by (auto simp: sync_def)
  then have "ptrace c' = ptrace c @ [] \<and> prefix (updates ([] :: 'c pool_event list))
        (pool_plan (lastIPPool c) cur (CompareMap (lastIPPool c) cur))
     \<and> ((\<exists>s. (s, True) \<in> set (updates ([] :: 'c pool_event list))) \<longrightarrow>
           prefix (map (\<lambda>k. (index cur k, False))
                     (Add (CompareMap (lastIPPool c) cur) @ Upd (CompareMap (lastIPPool c) cur)))
             (updates ([] :: 'c pool_event list)))"
    by simp
  then have "\<exists>evs. ptrace c' = ptrace c @ evs
              \<and> prefix (updates evs)
                   (pool_plan (lastIPPool c) cur (CompareMap (lastIPPool c) cur))
              \<and> ((\<exists>s. (s, True) \<in> set (updates evs)) \<longrightarrow>
                   prefix (map (\<lambda>k. (index cur k, False))
                             (Add (CompareMap (lastIPPool c) cur)
                              @ Upd (CompareMap (lastIPPool c) cur)))
                     (updates evs))" by blast
  then show ?thesis using True res by simp
next
  case False
  define c0 where "c0 = c\<lparr>pworld := w\<rparr>"
  define act where "act = CompareMap (lastIPPool c) cur"
  have c0: "lastIPPool c0 = lastIPPool c" "ptrace c0 = ptrace c"
    by (simp_all add: c0_def)
  obtain r1 c1 where a1: "syncKeys e False (\<lambda>s. cur) (Add act @ Upd act) c0 = (r1, c1)"
    by (cases "syncKeys e False (\<lambda>s. cur) (Add act @ Upd act) c0")
  obtain r2 c2 where a2: "syncKeys e True lastIPPool (Del act) c1 = (r2, c2)"
    by (cases "syncKeys e True lastIPPool (Del act) c1")
  from syncKeys_frame [OF a1] obtain e1 where
    l1: "lastIPPool c1 = lastIPPool c0" and t1: "ptrace c1 = ptrace c0 @ e1" and
    p1: "prefix (updates e1) (map (\<lambda>k. (index cur k, False)) (Add act @ Upd act))" and
    d1: "r1 = Done \<longrightarrow> updates e1 = map (\<lambda>k. (index cur k, False)) (Add act @ Upd act)"
    by blast
  from syncKeys_frame [OF a2] obtain e2 where
    l2: "lastIPPool c2 = lastIPPool c1" and t2: "ptrace c2 = ptrace c1 @ e2" and
    p2: "prefix (updates e2) (map (\<lambda>k. (index (lastIPPool c1) k, True)) (Del act))" and
    d2: "r2 = Done \<longrightarrow> updates e2 = map (\<lambda>k. (index (lastIPPool c1) k, True)) (Del act)"
    by blast
  have unfold: "sync e c =
      (case (r1, c1) of (Done, s1) \<Rightarrow>
         (case (r2, c2) of (Done, s2) \<Rightarrow> (Done, s2\<lparr>lastIPPool := cur\<rparr>)
          | (x, s2) \<Rightarrow> (x, s2))
       | (x, s1) \<Rightarrow> (x, s1))"
    using f False a1 a2
    by (simp add: sync_def c0_def act_def Let_def split: outcome.splits)
  show ?thesis
  proof (cases "r1 = Done")
    case r1: False
    then have res: "r = r1" "c' = c1" using r unfold by (cases r1; simp)+
    have "(s, True) \<notin> set (updates e1)" for s
      using no_True_in_prefix_of_map [OF p1] by simp
    moreover have "prefix (updates e1) (pool_plan (lastIPPool c) cur act)"
      using p1 unfolding pool_plan_def by (rule prefix_prefix)
    ultimately show ?thesis
      using res r1 l1 t1 c0 False unfolding act_def by auto
  next
    case r1: True
    have tr2: "ptrace c2 = ptrace c @ (e1 @ e2)" using t1 t2 c0 by simp
    have disp: "updates (e1 @ e2) =
        map (\<lambda>k. (index cur k, False)) (Add act @ Upd act) @ updates e2"
      using d1 r1 by simp
    have pre: "prefix (updates (e1 @ e2)) (pool_plan (lastIPPool c) cur act)"
      unfolding disp pool_plan_def using p2 l1 c0 by simp
    have ord: "prefix (map (\<lambda>k. (index cur k, False)) (Add act @ Upd act)) (updates (e1 @ e2))"
      unfolding disp by (simp add: prefix_def)
    show ?thesis
    proof (cases "r2 = Done")
      case r2: False
      then have res: "r = r2" "c' = c2" using r unfold r1 by (cases r2; simp)+
      show ?thesis
        using res r2 l1 l2 tr2 c0 False pre ord unfolding act_def by auto
    next
      case r2: True
      then have res: "r = Done" "c' = c2\<lparr>lastIPPool := cur\<rparr>"
        using r unfold r1 by simp_all
      have "ptrace c' = ptrace c @ (e1 @ e2)" using res tr2 by simp
      then show ?thesis
        using res pre ord unfolding act_def by auto
    qed
  qed
qed

lemma sync_fetch_failed:
  assumes "getIPPools e (pworld c) = (Inl err, w)"
  shows "sync e c = (Failed err, c\<lparr>pworld := w\<rparr>)"
  using assms by (simp add: sync_def)

section \<open>Which keys end the process\<close>

lemma fromError_not_Exited [simp]: "fromError r \<noteq> Exited"
  by (simp add: fromError_def split: option.splits)

lemma AddNeighbor_not_Exited [simp]: "fst (bgpServer_AddNeighbor c n st) \<noteq> Exited"
  by (simp add: bgpServer_AddNeighbor_def split: prod.splits)

lemma DeleteNeighbor_not_Exited [simp]: "fst (bgpServer_DeleteNeighbor c n st) \<noteq> Exited"
  by (simp add: bgpServer_DeleteNeighbor_def split: prod.splits)

lemma handleNonMeshNeighbor_not_Exited [simp]:
  "fst (handleNonMeshNeighbor c a ty peer st) \<noteq> Exited"
  by (simp add: handleNonMeshNeighbor_def split: sum.splits action.splits)

lemma deleteNeighbor_not_Exited [simp]: "fst (deleteNeighbor c address st) \<noteq> Exited"
  by (simp add: deleteNeighbor_def)

lemma update_ip_addr_not_Exited [simp]: "fst (update_ip_addr c a key val host st) \<noteq> Exited"
proof -
  have add: "\<And>st1. fst (if val = [] then (Done, st1)
               else
                 (case getPeerASN c host (world st1) of
                    (Inl e, w) \<Rightarrow> (Failed (External e), st1\<lparr>world := w\<rparr>)
                  | (Inr asn, w) \<Rightarrow>
                      bgpServer_AddNeighbor c (meshNeighbor c val asn) (st1\<lparr>world := w\<rparr>)))
           \<noteq> Exited"
    by (simp split: prod.splits sum.splits)
  show ?thesis
  proof (cases a)
    case Act_upd
    obtain r st1 where d: "deleteNeighbor c (index (lastBgpconfig st) key) st = (r, st1)"
      by (cases "deleteNeighbor c (index (lastBgpconfig st) key) st")
    then have "r \<noteq> Exited"
      using deleteNeighbor_not_Exited [of c "index (lastBgpconfig st) key" st] by simp
    then show ?thesis using Act_upd d add [of st1]
      by (cases r) (simp_all add: update_ip_addr_def)
  qed (use add [of st] in \<open>simp_all add: update_ip_addr_def\<close>)
qed

lemma as_num_versions_not_Exited [simp]:
  "fst (as_num_versions c val asn host cfg vs st) \<noteq> Exited"
proof (induction vs arbitrary: st)
  case Nil
  show ?case by simp
next
  case (Cons v vs)
  show ?case
  proof (cases "map_of cfg (AllNodes c @ ''/'' @ host @ ''/ip_addr_'' @ v)")
    case None
    then show ?thesis by simp
  next
    case (Some ip)
    obtain r1 st1 where d: "deleteNeighbor c ip st = (r1, st1)"
      by (cases "deleteNeighbor c ip st")
    then have n1: "r1 \<noteq> Exited" using deleteNeighbor_not_Exited [of c ip st] by simp
    obtain r2 st2 where a: "bgpServer_AddNeighbor c (meshNeighbor c val asn) st1 = (r2, st2)"
      by (cases "bgpServer_AddNeighbor c (meshNeighbor c val asn) st1")
    then have n2: "r2 \<noteq> Exited"
      using AddNeighbor_not_Exited [of c "meshNeighbor c val asn" st1] by simp
    show ?thesis using Some d a n1 n2 Cons.IH
      by (cases r1; cases r2) simp_all
  qed
qed

lemma update_as_num_not_Exited [simp]: "fst (update_as_num c a val host cfg st) \<noteq> Exited"
  unfolding update_as_num_def
  by (simp del: as_num_versions.simps split: prod.splits sum.splits)

lemma mesh_neighbors_not_Exited [simp]: "fst (mesh_neighbors c mesh ns st) \<noteq> Exited"
proof (induction ns arbitrary: st)
  case Nil
  show ?case by simp
next
  case (Cons n ns)
  obtain r st1 where s: "(if mesh then bgpServer_AddNeighbor c n st
      else bgpServer_DeleteNeighbor c n st) = (r, st1)"
    by (cases "if mesh then bgpServer_AddNeighbor c n st else bgpServer_DeleteNeighbor c n st")
  have "fst (if mesh then bgpServer_AddNeighbor c n st
      else bgpServer_DeleteNeighbor c n st) \<noteq> Exited"
    by simp
  then have "r \<noteq> Exited" unfolding s by simp
  then show ?case using s Cons.IH by (cases r) simp_all
qed

lemma update_node_mesh_not_Exited [simp]: "fst (update_node_mesh c st) \<noteq> Exited"
  unfolding update_node_mesh_def
  by (simp del: mesh_neighbors.simps split: prod.splits sum.splits)

lemma update_node_key_not_Exited [simp]: "fst (update_node_key c a key cfg st) \<noteq> Exited"
  by (simp add: update_node_key_def Let_def)

lemma HasPrefix_append: "HasPrefix key (p @ q) \<Longrightarrow> HasPrefix key p"
  by (auto simp: HasPrefix_def dest: append_prefixD)

text \<open>
  C4 (as amended). updateBGPConfig ends the process for every key that is the local
  node's root key \<open>AllNodes/node\<close> or lies below it, the local node's \<open>peer_\<close> keys apart
  (so also for the local node's own ip_addr_v4, ip_addr_v6 and as_num keys), and for the
  global AS number key; it makes no session-manager call before. A key that starts neither
  with the string of the local node's root key nor with that of the global AS number key
  never ends the process. (The keys of the global peer prefix come first in the switch,
  and the per-node cases come before the global AS number case.)
\<close>

theorem fatal_restart_keys:
  "((key = AllNodes c @ ''/'' @ node c
       \<or> (HasPrefix key (AllNodes c @ ''/'' @ node c @ ''/'')
          \<and> \<not> HasPrefix key (AllNodes c @ ''/'' @ node c @ ''/peer_'')))
      \<and> \<not> HasPrefix key (GlobalBGP c @ ''/peer_'')
     \<longrightarrow> updateBGPConfig c a key cfg st
           = (Exited, st\<lparr>trace := trace st @ [Call_updateBGPConfig a key]\<rparr>))
   \<and> (key = GlobalBGP c @ ''/as_num'' \<and> \<not> HasPrefix key (AllNodes c)
     \<longrightarrow> updateBGPConfig c a key cfg st
           = (Exited, st\<lparr>trace := trace st @ [Call_updateBGPConfig a key]\<rparr>))
   \<and> (\<not> HasPrefix key (AllNodes c @ ''/'' @ node c)
      \<and> \<not> HasPrefix key (GlobalBGP c @ ''/as_num'')
     \<longrightarrow> fst (updateBGPConfig c a key cfg st) \<noteq> Exited)"
proof (intro conjI impI)
  assume h: "(key = AllNodes c @ ''/'' @ node c
       \<or> (HasPrefix key (AllNodes c @ ''/'' @ node c @ ''/'')
          \<and> \<not> HasPrefix key (AllNodes c @ ''/'' @ node c @ ''/peer_'')))
      \<and> \<not> HasPrefix key (GlobalBGP c @ ''/peer_'')"
  have root: "HasPrefix key (AllNodes c @ ''/'' @ node c)"
    using h HasPrefix_append [of key "AllNodes c @ ''/'' @ node c" "''/''"]
    by (auto simp: HasPrefix_def)
  have nopeer: "\<not> HasPrefix key (AllNodes c @ ''/'' @ node c @ ''/peer_'')"
    using h by (auto simp: HasPrefix_def)
  show "updateBGPConfig c a key cfg st
           = (Exited, st\<lparr>trace := trace st @ [Call_updateBGPConfig a key]\<rparr>)"
    using h root nopeer by (simp add: updateBGPConfig_def Let_def)
next
  assume h: "key = GlobalBGP c @ ''/as_num'' \<and> \<not> HasPrefix key (AllNodes c)"
  then have h1: "key = GlobalBGP c @ ''/as_num''" by (rule conjunct1)
  from h have h2: "\<not> HasPrefix key (AllNodes c)" by (rule conjunct2)
  have n1: "\<not> HasPrefix key (GlobalBGP c @ ''/peer_'')"
    unfolding h1 by (simp add: HasPrefix_def)
  have n2: "\<not> HasPrefix key (AllNodes c @ ''/'' @ node c @ ''/peer_'')"
    using h2 HasPrefix_append [of key "AllNodes c" "''/'' @ node c @ ''/peer_''"] by blast
  have n3: "\<not> HasPrefix key (AllNodes c @ ''/'' @ node c)"
    using h2 HasPrefix_append [of key "AllNodes c" "''/'' @ node c"] by blast
  have y: "HasPrefix key (GlobalBGP c @ ''/as_num'')"
    unfolding h1 by (simp add: HasPrefix_def)
  show "updateBGPConfig c a key cfg st
           = (Exited, st\<lparr>trace := trace st @ [Call_updateBGPConfig a key]\<rparr>)"
    using h2 n1 n2 n3 y by (simp add: updateBGPConfig_def Let_def)
next
  assume h: "\<not> HasPrefix key (AllNodes c @ ''/'' @ node c)
      \<and> \<not> HasPrefix key (GlobalBGP c @ ''/as_num'')"
  then show "fst (updateBGPConfig c a key cfg st) \<noteq> Exited"
    by (simp add: updateBGPConfig_def Let_def)
qed

section \<open>Address and AS-number keys of other nodes\<close>

lemma AddNeighbor_result:
  "bgpServer_AddNeighbor c n st =
     (fromError (fst (AddNeighbor c n (world st))),
      st\<lparr>world := snd (AddNeighbor c n (world st)), trace := trace st @ [Call_AddNeighbor n]\<rparr>)"
  by (simp add: bgpServer_AddNeighbor_def split: prod.splits)

lemma DeleteNeighbor_result:
  "bgpServer_DeleteNeighbor c n st =
     (fromError (fst (DeleteNeighbor c n (world st))),
      st\<lparr>world := snd (DeleteNeighbor c n (world st)),
         trace := trace st @ [Call_DeleteNeighbor n]\<rparr>)"
  by (simp add: bgpServer_DeleteNeighbor_def split: prod.splits)

text \<open>For a key that reaches the switch on the last segment, updateBGPConfig is that switch.\<close>

lemma updateBGPConfig_node_key:
  assumes "node_key c key"
  shows "updateBGPConfig c a key cfg st =
     (let st1 = st\<lparr>trace := trace st @ [Call_updateBGPConfig a key]\<rparr> in
      if key_field key = ''ip_addr_v4'' \<or> key_field key = ''ip_addr_v6''
      then update_ip_addr c a key (index cfg key) (key_host key) st1
      else if key_field key = ''as_num''
      then update_as_num c a (index cfg key) (key_host key) cfg st1
      else (Done, st1))"
proof -
  have n2: "\<not> HasPrefix key (AllNodes c @ ''/'' @ node c @ ''/peer_'')"
    using assms HasPrefix_append [of key "AllNodes c @ ''/'' @ node c" "''/peer_''"]
    by (auto simp: node_key_def)
  show ?thesis
    using assms n2
    by (simp add: updateBGPConfig_def update_node_key_def node_key_def key_field_def
        key_host_def Let_def)
qed

text \<open>
  C5. For an Updated address key (last segment ip_addr_v4 or ip_addr_v6 of a node other
  than the local one) with old value v1 (read from the baseline) and new value v2,
  updateBGPConfig adds to the history: its entry; then, unless v1 is empty, one
  DeleteNeighbor for the address v1; then at most one AddNeighbor, and that one is for
  the address v2 with the label made from v2 (so none is ever for v1). If v2 is empty
  there is no AddNeighbor, and the result is \<open>nil\<close> when v1 is empty and else what the
  one DeleteNeighbor call returned.
\<close>

theorem address_update_removes_old_before_adding_new:
  assumes "node_key c key"
    and "key_field key = ''ip_addr_v4'' \<or> key_field key = ''ip_addr_v6''"
  shows "let v1 = index (lastBgpconfig st) key;
             v2 = index cfg key;
             res = updateBGPConfig c Act_upd key cfg st;
             dels = (if v1 = [] then []
                     else [Call_DeleteNeighbor
                             \<lparr>NeighborAddress = v1, PeerAs = 0, Description = []\<rparr>])
         in (\<exists>adds. since (trace st) (trace (snd res))
                       = Call_updateBGPConfig Act_upd key # dels @ adds
                 \<and> (adds = []
                      \<or> (v2 \<noteq> []
                         \<and> (\<exists>asn. adds = [Call_AddNeighbor
                                 \<lparr>NeighborAddress = v2, PeerAs = asn,
                                  Description = ''Mesh_'' @ underscore c v2\<rparr>]))))
          \<and> (v2 = [] \<longrightarrow>
                since (trace st) (trace (snd res)) = Call_updateBGPConfig Act_upd key # dels
              \<and> fst res =
                  (if v1 = [] then Done
                   else fromError (fst (DeleteNeighbor c
                          \<lparr>NeighborAddress = v1, PeerAs = 0, Description = []\<rparr> (world st)))))"
proof -
  define v1 where "v1 = index (lastBgpconfig st) key"
  define v2 where "v2 = index cfg key"
  define n1 where "n1 = \<lparr>NeighborAddress = v1, PeerAs = 0, Description = []\<rparr>"
  define dels where "dels = (if v1 = [] then [] else [Call_DeleteNeighbor n1])"
  define st0 where "st0 = st\<lparr>trace := trace st @ [Call_updateBGPConfig Act_upd key]\<rparr>"
  define res where "res = updateBGPConfig c Act_upd key cfg st"
  obtain r1 st1 where d: "deleteNeighbor c v1 st0 = (r1, st1)"
    by (cases "deleteNeighbor c v1 st0")
  have t1: "trace st1 = trace st @ Call_updateBGPConfig Act_upd key # dels"
    and r1: "r1 = (if v1 = [] then Done else fromError (fst (DeleteNeighbor c n1 (world st))))"
    using d by (auto simp: deleteNeighbor_def DeleteNeighbor_result st0_def dels_def n1_def
        split: if_splits)
  have res: "res =
      (case (r1, st1) of
         (Done, s1) \<Rightarrow>
           if v2 = [] then (Done, s1)
           else (case getPeerASN c (key_host key) (world s1) of
                   (Inl e, w) \<Rightarrow> (Failed (External e), s1\<lparr>world := w\<rparr>)
                 | (Inr asn, w) \<Rightarrow>
                     bgpServer_AddNeighbor c (meshNeighbor c v2 asn) (s1\<lparr>world := w\<rparr>))
       | (r, s1) \<Rightarrow> (r, s1))"
    using assms d unfolding res_def st0_def v1_def v2_def
    by (simp add: updateBGPConfig_node_key update_ip_addr_def Let_def)
  have empty: "v2 = [] \<Longrightarrow> res = (r1, st1)"
    using res by (cases r1) simp_all
  have shape: "\<exists>adds. trace (snd res) = trace st @ Call_updateBGPConfig Act_upd key # dels @ adds
      \<and> (adds = [] \<or> (v2 \<noteq> [] \<and> (\<exists>asn. adds = [Call_AddNeighbor
            \<lparr>NeighborAddress = v2, PeerAs = asn, Description = ''Mesh_'' @ underscore c v2\<rparr>])))"
  proof (cases "r1 = Done \<and> v2 \<noteq> []")
    case False
    then have "res = (r1, st1)" using res by (cases r1) auto
    then have "trace (snd res) = trace st @ Call_updateBGPConfig Act_upd key # dels @ []"
      using t1 by simp
    then show ?thesis by blast
  next
    case True
    obtain x w where g: "getPeerASN c (key_host key) (world st1) = (x, w)"
      by (cases "getPeerASN c (key_host key) (world st1)")
    show ?thesis
    proof (cases x)
      case (Inl e)
      then have "res = (Failed (External e), st1\<lparr>world := w\<rparr>)"
        using res True g by simp
      then have "trace (snd res) = trace st @ Call_updateBGPConfig Act_upd key # dels @ []"
        using t1 by simp
      then show ?thesis by blast
    next
      case (Inr asn)
      then have "res = bgpServer_AddNeighbor c (meshNeighbor c v2 asn) (st1\<lparr>world := w\<rparr>)"
        using res True g by simp
      then have "trace (snd res) = trace st @ Call_updateBGPConfig Act_upd key # dels
          @ [Call_AddNeighbor \<lparr>NeighborAddress = v2, PeerAs = asn,
                Description = ''Mesh_'' @ underscore c v2\<rparr>]"
        using t1 by (simp add: AddNeighbor_result meshNeighbor_def)
      then show ?thesis using True by blast
    qed
  qed
  have "(\<exists>adds. since (trace st) (trace (snd res))
                       = Call_updateBGPConfig Act_upd key # dels @ adds
                 \<and> (adds = []
                      \<or> (v2 \<noteq> []
                         \<and> (\<exists>asn. adds = [Call_AddNeighbor
                                 \<lparr>NeighborAddress = v2, PeerAs = asn,
                                  Description = ''Mesh_'' @ underscore c v2\<rparr>]))))
          \<and> (v2 = [] \<longrightarrow>
                since (trace st) (trace (snd res)) = Call_updateBGPConfig Act_upd key # dels
              \<and> fst res =
                  (if v1 = [] then Done else fromError (fst (DeleteNeighbor c n1 (world st)))))"
  proof (intro conjI impI)
    from shape obtain adds where
      a: "trace (snd res) = trace st @ Call_updateBGPConfig Act_upd key # dels @ adds" and
      b: "adds = [] \<or> (v2 \<noteq> [] \<and> (\<exists>asn. adds = [Call_AddNeighbor
            \<lparr>NeighborAddress = v2, PeerAs = asn, Description = ''Mesh_'' @ underscore c v2\<rparr>]))"
      by blast
    from a have "since (trace st) (trace (snd res))
        = Call_updateBGPConfig Act_upd key # dels @ adds" by simp
    with b show "\<exists>adds. since (trace st) (trace (snd res))
                       = Call_updateBGPConfig Act_upd key # dels @ adds
                 \<and> (adds = []
                      \<or> (v2 \<noteq> []
                         \<and> (\<exists>asn. adds = [Call_AddNeighbor
                                 \<lparr>NeighborAddress = v2, PeerAs = asn,
                                  Description = ''Mesh_'' @ underscore c v2\<rparr>])))" by blast
  next
    assume "v2 = []"
    from empty [OF this] show "since (trace st) (trace (snd res))
        = Call_updateBGPConfig Act_upd key # dels" using t1 by simp
  next
    assume "v2 = []"
    from empty [OF this] show "fst res =
        (if v1 = [] then Done else fromError (fst (DeleteNeighbor c n1 (world st))))"
      using r1 by simp
  qed
  then show ?thesis
    unfolding Let_def v1_def v2_def res_def dels_def n1_def .
qed

lemma as_num_versions_missing:
  assumes "\<exists>v \<in> set vs. map_of cfg (AllNodes c @ ''/'' @ host @ ''/ip_addr_'' @ v) = None"
  shows "fst (as_num_versions c val asn host cfg vs st) \<noteq> Done"
  using assms
proof (induction vs arbitrary: st)
  case Nil
  then show ?case by simp
next
  case (Cons v vs)
  show ?case
  proof (cases "map_of cfg (AllNodes c @ ''/'' @ host @ ''/ip_addr_'' @ v)")
    case None
    then show ?thesis by simp
  next
    case (Some ip)
    with Cons.prems have
      rest: "\<exists>v \<in> set vs. map_of cfg (AllNodes c @ ''/'' @ host @ ''/ip_addr_'' @ v) = None"
      by auto
    obtain r1 st1 where d: "deleteNeighbor c ip st = (r1, st1)"
      by (cases "deleteNeighbor c ip st")
    obtain r2 st2 where a: "bgpServer_AddNeighbor c (meshNeighbor c val asn) st1 = (r2, st2)"
      by (cases "bgpServer_AddNeighbor c (meshNeighbor c val asn) st1")
    show ?thesis using Some d a Cons.IH [OF rest]
      by (cases r1; cases r2) simp_all
  qed
qed

text \<open>One round of the loop over the versions, when the session manager accepts the calls.\<close>

lemma as_num_versions_round:
  assumes ok: "\<forall>n x. fst (AddNeighbor c n x) = None \<and> fst (DeleteNeighbor c n x) = None"
    and ip: "map_of cfg (AllNodes c @ ''/'' @ host @ ''/ip_addr_'' @ v) = Some ip"
  shows "\<exists>s. as_num_versions c val asn host cfg (v # vs) st
                = as_num_versions c val asn host cfg vs s
            \<and> trace s = trace st @ readd_calls c val asn ip"
proof (cases "ip = []")
  case True
  then have "as_num_versions c val asn host cfg (v # vs) st
                = as_num_versions c val asn host cfg vs st
            \<and> trace st = trace st @ readd_calls c val asn ip"
    using ip by (simp add: readd_calls_def)
  then show ?thesis by blast
next
  case False
  define n1 where "n1 = \<lparr>NeighborAddress = ip, PeerAs = 0, Description = []\<rparr>"
  define s1 where "s1 = st\<lparr>world := snd (DeleteNeighbor c n1 (world st)),
      trace := trace st @ [Call_DeleteNeighbor n1]\<rparr>"
  define s2 where "s2 = s1\<lparr>world := snd (AddNeighbor c (meshNeighbor c val asn) (world s1)),
      trace := trace s1 @ [Call_AddNeighbor (meshNeighbor c val asn)]\<rparr>"
  have d: "deleteNeighbor c ip st = (Done, s1)"
    using False ok by (simp add: deleteNeighbor_def DeleteNeighbor_result fromError_def
        n1_def s1_def)
  have a: "bgpServer_AddNeighbor c (meshNeighbor c val asn) s1 = (Done, s2)"
    using ok by (simp add: AddNeighbor_result fromError_def s2_def)
  have "as_num_versions c val asn host cfg (v # vs) st
          = as_num_versions c val asn host cfg vs s2"
    using ip False d a by simp
  moreover have "trace s2 = trace st @ readd_calls c val asn ip"
    using False by (simp add: s2_def s1_def readd_calls_def n1_def meshNeighbor_def)
  ultimately show ?thesis by blast
qed

text \<open>
  C10. For an as_num key of a node other than the local one that is Added or Updated:
  when the AS number is resolved and the session manager accepts the calls, updateBGPConfig
  makes, for the v4 address and then for the v6 address of the node, and only where the
  address is not empty, a DeleteNeighbor keyed by the address followed by an AddNeighbor
  whose NeighborAddress is the value of the as_num key and whose label is made from that
  value (\<open>readd_calls\<close>); it stops with "ip address data not found" at the first of the two
  address keys that is absent from the snapshot. Whatever the collaborators answer, the
  action never returns \<open>nil\<close> when one of the two address keys is absent.
\<close>

theorem as_num_change_readds_sessions_from_as_value:
  assumes "node_key c key" and "key_field key = ''as_num''" and "a = Act_add \<or> a = Act_upd"
  shows "let val = index cfg key;
             ip4 = map_of cfg (AllNodes c @ ''/'' @ key_host key @ ''/ip_addr_v4'');
             ip6 = map_of cfg (AllNodes c @ ''/'' @ key_host key @ ''/ip_addr_v6'');
             res = updateBGPConfig c a key cfg st;
             evs = since (trace st) (trace (snd res))
         in (ip4 = None \<or> ip6 = None \<longrightarrow> fst res \<noteq> Done)
          \<and> (\<forall>asn w.
                (if a = Act_upd then (ASNumberFromString c val, world st)
                 else getNodeASN c (world st)) = (Inr asn, w) \<longrightarrow>
                (ip4 = None \<longrightarrow>
                   fst res = Failed IpAddressDataNotFound \<and> evs = [Call_updateBGPConfig a key])
              \<and> ((\<forall>n x. fst (AddNeighbor c n x) = None \<and> fst (DeleteNeighbor c n x) = None) \<longrightarrow>
                  (\<forall>i4. ip4 = Some i4 \<longrightarrow>
                     (ip6 = None \<longrightarrow>
                        fst res = Failed IpAddressDataNotFound
                        \<and> evs = Call_updateBGPConfig a key # readd_calls c val asn i4)
                   \<and> (\<forall>i6. ip6 = Some i6 \<longrightarrow>
                        fst res = Done
                        \<and> evs = Call_updateBGPConfig a key
                                 # readd_calls c val asn i4 @ readd_calls c val asn i6))))"
proof -
  define val where "val = index cfg key"
  define host where "host = key_host key"
  define k4 where "k4 = AllNodes c @ ''/'' @ host @ ''/ip_addr_'' @ ''v4''"
  define k6 where "k6 = AllNodes c @ ''/'' @ host @ ''/ip_addr_'' @ ''v6''"
  define st0 where "st0 = st\<lparr>trace := trace st @ [Call_updateBGPConfig a key]\<rparr>"
  define res where "res = updateBGPConfig c a key cfg st"
  define evs where "evs = since (trace st) (trace (snd res))"
  have res: "res = update_as_num c a val host cfg st0"
    using assms(1,2) unfolding res_def val_def host_def st0_def
    by (simp add: updateBGPConfig_node_key Let_def)
  have missing: "fst res \<noteq> Done" if "map_of cfg k4 = None \<or> map_of cfg k6 = None"
  proof -
    have ex: "\<exists>v \<in> set [''v4'', ''v6''].
        map_of cfg (AllNodes c @ ''/'' @ host @ ''/ip_addr_'' @ v) = None"
      using that unfolding k4_def k6_def by auto
    have "fst (as_num_versions c val x host cfg [''v4'', ''v6''] s) \<noteq> Done" for x s
      by (rule as_num_versions_missing [OF ex])
    then show ?thesis
      unfolding res update_as_num_def
      by (simp del: as_num_versions.simps split: prod.splits sum.splits)
  qed
  have resolved: "(map_of cfg k4 = None \<longrightarrow>
                   fst res = Failed IpAddressDataNotFound \<and> evs = [Call_updateBGPConfig a key])
              \<and> ((\<forall>n x. fst (AddNeighbor c n x) = None \<and> fst (DeleteNeighbor c n x) = None) \<longrightarrow>
                  (\<forall>i4. map_of cfg k4 = Some i4 \<longrightarrow>
                     (map_of cfg k6 = None \<longrightarrow>
                        fst res = Failed IpAddressDataNotFound
                        \<and> evs = Call_updateBGPConfig a key # readd_calls c val asn i4)
                   \<and> (\<forall>i6. map_of cfg k6 = Some i6 \<longrightarrow>
                        fst res = Done
                        \<and> evs = Call_updateBGPConfig a key
                                 # readd_calls c val asn i4 @ readd_calls c val asn i6)))"
    if asn: "(if a = Act_upd then (ASNumberFromString c val, world st)
                 else getNodeASN c (world st)) = (Inr asn, w)" for asn w
  proof -
    define s0 where "s0 = st0\<lparr>world := w\<rparr>"
    have t0: "trace s0 = trace st @ [Call_updateBGPConfig a key]"
      by (simp add: s0_def st0_def)
    have w0: "world st0 = world st" by (simp add: st0_def)
    have "(if a = Act_upd then (ASNumberFromString c val, world st0)
             else getNodeASN c (world st0)) = (Inr asn, w)"
      using asn unfolding w0 .
    then have res': "res = as_num_versions c val asn host cfg [''v4'', ''v6''] s0"
      unfolding res update_as_num_def s0_def
      by (simp del: as_num_versions.simps)
    show ?thesis
    proof (intro conjI impI allI)
      assume "map_of cfg k4 = None"
      then have r: "res = (Failed IpAddressDataNotFound, s0)"
        unfolding res' k4_def by simp
      show "fst res = Failed IpAddressDataNotFound" using r by simp
      show "evs = [Call_updateBGPConfig a key]" using r t0 by (simp add: evs_def)
    next
      fix i4
      assume ok: "\<forall>n x. fst (AddNeighbor c n x) = None \<and> fst (DeleteNeighbor c n x) = None"
        and i4: "map_of cfg k4 = Some i4" and n6: "map_of cfg k6 = None"
      from as_num_versions_round [OF ok i4 [unfolded k4_def], of val asn "[''v6'']" s0]
      obtain s4 where r4: "res = as_num_versions c val asn host cfg [''v6''] s4"
        and t4: "trace s4 = trace s0 @ readd_calls c val asn i4"
        unfolding res' by auto
      have r: "res = (Failed IpAddressDataNotFound, s4)"
        using n6 unfolding r4 k6_def by simp
      show "fst res = Failed IpAddressDataNotFound" using r by simp
      show "evs = Call_updateBGPConfig a key # readd_calls c val asn i4"
        using r t4 t0 by (simp add: evs_def)
    next
      fix i4 i6
      assume ok: "\<forall>n x. fst (AddNeighbor c n x) = None \<and> fst (DeleteNeighbor c n x) = None"
        and i4: "map_of cfg k4 = Some i4" and i6: "map_of cfg k6 = Some i6"
      from as_num_versions_round [OF ok i4 [unfolded k4_def], of val asn "[''v6'']" s0]
      obtain s4 where r4: "res = as_num_versions c val asn host cfg [''v6''] s4"
        and t4: "trace s4 = trace s0 @ readd_calls c val asn i4"
        unfolding res' by auto
      from as_num_versions_round [OF ok i6 [unfolded k6_def], of val asn "[]" s4]
      obtain s6 where r6: "res = as_num_versions c val asn host cfg [] s6"
        and t6: "trace s6 = trace s4 @ readd_calls c val asn i6"
        unfolding r4 by auto
      have r: "res = (Done, s6)" unfolding r6 by simp
      show "fst res = Done" using r by simp
      show "evs = Call_updateBGPConfig a key
          # readd_calls c val asn i4 @ readd_calls c val asn i6"
        using r t6 t4 t0 by (simp add: evs_def)
    qed
  qed
  have k4: "k4 = AllNodes c @ ''/'' @ key_host key @ ''/ip_addr_v4''"
    and k6: "k6 = AllNodes c @ ''/'' @ key_host key @ ''/ip_addr_v6''"
    by (simp_all add: k4_def k6_def host_def)
  show ?thesis
    using missing resolved
    unfolding Let_def k4 k6 val_def res_def evs_def by blast
qed

section \<open>The defaults of the peering snapshot\<close>

text \<open>
  C9. A snapshot that getBGPConfig returns holds the global logging key, the global
  AS-number key and the global node-mesh key: it is the map of the three defaults
  "info", "64512" and {"enabled":true}, written first, with a sequence of
  \<open>etcdVarClient.Apply\<close> writes on top (which add or overwrite entries and never remove
  one). So getNeighborConfigs never returns "mesh data not found" on it.
\<close>

theorem getBGPConfig_seeds_defaults:
  assumes "getBGPConfig c w = (Inr cfg, w')"
  shows "GlobalLogging c \<in> dom (map_of cfg)
       \<and> GlobalASN c \<in> dom (map_of cfg)
       \<and> GlobalNodeMesh c \<in> dom (map_of cfg)
       \<and> (\<exists>ks. cfg = foldl (\<lambda>v k. snd (etcdVarClient_Apply (ser c) k v))
                        (assign (GlobalNodeMesh c) mesh_enabled
                           (assign (GlobalASN c) ''64512''
                              (assign (GlobalLogging c) ''info'' []))) ks)
       \<and> fst (getNeighborConfigs c cfg w2) \<noteq> Inl MeshDataNotFound"
proof -
  from getBGPConfig_foldl [OF assms] obtain ks where
    ks: "cfg = foldl (\<lambda>v k. snd (etcdVarClient_Apply (ser c) k v)) (bgpconfig_defaults c) ks"
    by blast
  have sub: "dom (map_of (bgpconfig_defaults c)) \<subseteq> dom (map_of cfg)"
    unfolding ks by (rule foldl_Apply_dom)
  have d: "GlobalLogging c \<in> dom (map_of (bgpconfig_defaults c))"
    "GlobalASN c \<in> dom (map_of (bgpconfig_defaults c))"
    "GlobalNodeMesh c \<in> dom (map_of (bgpconfig_defaults c))"
    by (simp_all add: bgpconfig_defaults_def)
  have keys: "GlobalLogging c \<in> dom (map_of cfg)" "GlobalASN c \<in> dom (map_of cfg)"
    "GlobalNodeMesh c \<in> dom (map_of cfg)"
    using sub d by blast+
  from keys(3) obtain mesh where mesh: "map_of cfg (GlobalNodeMesh c) = Some mesh"
    by (auto simp: domIff)
  have "fst (getNeighborConfigs c cfg w2) \<noteq> Inl MeshDataNotFound"
    unfolding getNeighborConfigs_def using mesh
    by (simp split: prod.splits sum.splits)
  moreover have "\<exists>ks. cfg = foldl (\<lambda>v k. snd (etcdVarClient_Apply (ser c) k v))
                        (assign (GlobalNodeMesh c) mesh_enabled
                           (assign (GlobalASN c) ''64512''
                              (assign (GlobalLogging c) ''info'' []))) ks"
    using ks unfolding bgpconfig_defaults_def by blast
  ultimately show ?thesis using keys by blast
qed

section \<open>The baseline and the order of a cycle\<close>

lemma applyKeys_append:
  "applyKeys c a cfg (ks1 @ ks2) st =
     (case applyKeys c a cfg ks1 st of
        (Done, st1) \<Rightarrow> applyKeys c a cfg ks2 st1
      | (r, st1) \<Rightarrow> (r, st1))"
  by (induction ks1 arbitrary: st) (auto split: prod.splits outcome.splits)

lemma syncKeys_append:
  "syncKeys e d pools (ks1 @ ks2) pc =
     (case syncKeys e d pools ks1 pc of
        (Done, pc1) \<Rightarrow> syncKeys e d pools ks2 pc1
      | (r, pc1) \<Rightarrow> (r, pc1))"
  by (induction ks1 arbitrary: pc) (auto split: prod.splits outcome.splits)

text \<open>A cycle that does not return \<open>nil\<close> returns what the action of one key of the delta
  returned, in the state that action left.\<close>

lemma checkBGPConfig_abort:
  assumes f: "getBGPConfig c (world st) = (Inr cur, w)"
    and r: "checkBGPConfig c st = (r, st')" and n: "r \<noteq> Done"
  shows "\<exists>a k cfg st1. (a, k) \<in> set (plan (CompareMap (lastBgpconfig st) cur))
           \<and> updateBGPConfig c a k cfg st1 = (r, st')"
proof -
  have ne: "\<not> DeepEqual (lastBgpconfig st) cur"
    using f r n by (auto simp: checkBGPConfig_def split: if_splits)
  define st0 where "st0 = st\<lparr>world := w\<rparr>"
  define act where "act = CompareMap (lastBgpconfig st) cur"
  obtain r1 st1 where a1: "applyKeys c Act_add (\<lambda>s. cur) (Add act) st0 = (r1, st1)"
    by (cases "applyKeys c Act_add (\<lambda>s. cur) (Add act) st0")
  obtain r2 st2 where a2: "applyKeys c Act_upd (\<lambda>s. cur) (Upd act) st1 = (r2, st2)"
    by (cases "applyKeys c Act_upd (\<lambda>s. cur) (Upd act) st1")
  obtain r3 st3 where a3: "applyKeys c Act_del lastBgpconfig (Del act) st2 = (r3, st3)"
    by (cases "applyKeys c Act_del lastBgpconfig (Del act) st2")
  have unfold: "checkBGPConfig c st =
      (case (r1, st1) of (Done, s1) \<Rightarrow>
         (case (r2, st2) of (Done, s2) \<Rightarrow>
            (case (r3, st3) of (Done, s3) \<Rightarrow> (Done, s3\<lparr>lastBgpconfig := cur\<rparr>)
             | (x, s3) \<Rightarrow> (x, s3))
          | (x, s2) \<Rightarrow> (x, s2))
       | (x, s1) \<Rightarrow> (x, s1))"
    using f ne a1 a2 a3
    by (simp add: checkBGPConfig_def st0_def act_def Let_def split: outcome.splits)
  have found: "\<exists>a k cfg sx. (a, k) \<in> set (plan act) \<and> updateBGPConfig c a k cfg sx = (r, st')"
    if "applyKeys c a cfg ks s = (r, st')" and "set (map (Pair a) ks) \<subseteq> set (plan act)"
    for a cfg ks s
  proof -
    from applyKeys_abort [OF that(1) n] obtain ks1 k ks2 sx where
      "ks = ks1 @ k # ks2" "updateBGPConfig c a k (cfg sx) sx = (r, st')" by blast
    moreover then have "(a, k) \<in> set (plan act)" using that(2) by auto
    ultimately show ?thesis by blast
  qed
  show ?thesis
  proof (cases "r1 = Done")
    case False
    then have "r = r1" "st' = st1" using r unfold by (cases r1; simp)+
    with a1 have "applyKeys c Act_add (\<lambda>s. cur) (Add act) st0 = (r, st')" by simp
    from found [OF this] show ?thesis unfolding act_def plan_def by auto
  next
    case r1: True
    show ?thesis
    proof (cases "r2 = Done")
      case False
      then have "r = r2" "st' = st2" using r unfold r1 by (cases r2; simp)+
      with a2 have "applyKeys c Act_upd (\<lambda>s. cur) (Upd act) st1 = (r, st')" by simp
      from found [OF this] show ?thesis unfolding act_def plan_def by auto
    next
      case r2: True
      have "r3 \<noteq> Done" using r unfold r1 r2 n by auto
      then have "r = r3" "st' = st3" using r unfold r1 r2 by (cases r3; simp)+
      with a3 have "applyKeys c Act_del lastBgpconfig (Del act) st2 = (r, st')" by simp
      from found [OF this] show ?thesis unfolding act_def plan_def by auto
    qed
  qed
qed

lemma sync_abort:
  assumes f: "getIPPools e (pworld pc) = (Inr cur, w)"
    and r: "sync e pc = (r, pc')" and n: "r \<noteq> Done"
  shows "\<exists>s d pc1. (s, d) \<in> set (pool_plan (lastIPPool pc) cur (CompareMap (lastIPPool pc) cur))
           \<and> update e s d pc1 = (r, pc')"
proof -
  have ne: "\<not> DeepEqual (lastIPPool pc) cur"
    using f r n by (auto simp: sync_def split: if_splits)
  define c0 where "c0 = pc\<lparr>pworld := w\<rparr>"
  define act where "act = CompareMap (lastIPPool pc) cur"
  have c0: "lastIPPool c0 = lastIPPool pc" by (simp add: c0_def)
  obtain r1 c1 where a1: "syncKeys e False (\<lambda>s. cur) (Add act @ Upd act) c0 = (r1, c1)"
    by (cases "syncKeys e False (\<lambda>s. cur) (Add act @ Upd act) c0")
  obtain r2 c2 where a2: "syncKeys e True lastIPPool (Del act) c1 = (r2, c2)"
    by (cases "syncKeys e True lastIPPool (Del act) c1")
  have l1: "lastIPPool c1 = lastIPPool pc"
    using syncKeys_frame [OF a1] c0 by simp
  have unfold: "sync e pc =
      (case (r1, c1) of (Done, s1) \<Rightarrow>
         (case (r2, c2) of (Done, s2) \<Rightarrow> (Done, s2\<lparr>lastIPPool := cur\<rparr>)
          | (x, s2) \<Rightarrow> (x, s2))
       | (x, s1) \<Rightarrow> (x, s1))"
    using f ne a1 a2
    by (simp add: sync_def c0_def act_def Let_def split: outcome.splits)
  show ?thesis
  proof (cases "r1 = Done")
    case False
    then have "r = r1" "pc' = c1" using r unfold by (cases r1; simp)+
    with a1 have "syncKeys e False (\<lambda>s. cur) (Add act @ Upd act) c0 = (r, pc')" by simp
    from syncKeys_abort [OF this n] obtain ks1 k ks2 cx where
      ks: "Add act @ Upd act = ks1 @ k # ks2" and u: "update e (index cur k) False cx = (r, pc')"
      by blast
    have "k \<in> set (Add act @ Upd act)" unfolding ks by simp
    then have "(index cur k, False) \<in> set (pool_plan (lastIPPool pc) cur act)"
      unfolding pool_plan_def by auto
    with u show ?thesis unfolding act_def by blast
  next
    case r1: True
    have "r2 \<noteq> Done" using r unfold r1 n by auto
    then have "r = r2" "pc' = c2" using r unfold r1 by (cases r2; simp)+
    with a2 have s: "syncKeys e True lastIPPool (Del act) c1 = (r, pc')" by simp
    from syncKeys_abort [OF this n] obtain ks1 k ks2 cx where
      ks: "Del act = ks1 @ k # ks2" and d: "syncKeys e True lastIPPool ks1 c1 = (Done, cx)"
      and u: "update e (index (lastIPPool cx) k) True cx = (r, pc')"
      by blast
    have "lastIPPool cx = lastIPPool pc"
      using syncKeys_frame [OF d] l1 by simp
    moreover have "k \<in> set (Del act)" unfolding ks by simp
    ultimately have "(index (lastIPPool cx) k, True) \<in> set (pool_plan (lastIPPool pc) cur act)"
      unfolding pool_plan_def by auto
    with u show ?thesis unfolding act_def by blast
  qed
qed

text \<open>
  C2. In a cycle of either stream that starts from a baseline that is a Go map: when the
  fetch fails the baseline keeps its value; when the fetch succeeds and the cycle returns
  \<open>nil\<close> (every action of the cycle returned \<open>nil\<close>) the baseline is the fetched snapshot, or
  the old baseline where \<open>reflect.DeepEqual\<close> found no difference, and in both cases holds
  the same entries as the fetched snapshot; when an action fails (or ends the process)
  the baseline keeps exactly its value, which differs from the fetched snapshot. The
  baseline stays a Go map.
\<close>

theorem baseline_replaced_iff_cycle_succeeds:
  assumes "distinct (map fst (lastBgpconfig st))" and "distinct (map fst (lastIPPool pc))"
  shows "(case getBGPConfig c (world st) of
            (Inl err, w) \<Rightarrow> lastBgpconfig (snd (checkBGPConfig c st)) = lastBgpconfig st
          | (Inr cur, w) \<Rightarrow>
              if fst (checkBGPConfig c st) = Done
              then (lastBgpconfig (snd (checkBGPConfig c st)) = cur
                    \<or> lastBgpconfig (snd (checkBGPConfig c st)) = lastBgpconfig st)
                   \<and> map_of (lastBgpconfig (snd (checkBGPConfig c st))) = map_of cur
              else lastBgpconfig (snd (checkBGPConfig c st)) = lastBgpconfig st
                   \<and> map_of (lastBgpconfig st) \<noteq> map_of cur)
       \<and> distinct (map fst (lastBgpconfig (snd (checkBGPConfig c st))))
       \<and> (case getIPPools e (pworld pc) of
            (Inl err, w) \<Rightarrow> lastIPPool (snd (sync e pc)) = lastIPPool pc
          | (Inr cur, w) \<Rightarrow>
              if fst (sync e pc) = Done
              then (lastIPPool (snd (sync e pc)) = cur
                    \<or> lastIPPool (snd (sync e pc)) = lastIPPool pc)
                   \<and> map_of (lastIPPool (snd (sync e pc))) = map_of cur
              else lastIPPool (snd (sync e pc)) = lastIPPool pc
                   \<and> map_of (lastIPPool pc) \<noteq> map_of cur)
       \<and> distinct (map fst (lastIPPool (snd (sync e pc))))"
proof -
  have bgp: "(case getBGPConfig c (world st) of
            (Inl err, w) \<Rightarrow> lastBgpconfig (snd (checkBGPConfig c st)) = lastBgpconfig st
          | (Inr cur, w) \<Rightarrow>
              if fst (checkBGPConfig c st) = Done
              then (lastBgpconfig (snd (checkBGPConfig c st)) = cur
                    \<or> lastBgpconfig (snd (checkBGPConfig c st)) = lastBgpconfig st)
                   \<and> map_of (lastBgpconfig (snd (checkBGPConfig c st))) = map_of cur
              else lastBgpconfig (snd (checkBGPConfig c st)) = lastBgpconfig st
                   \<and> map_of (lastBgpconfig st) \<noteq> map_of cur)
       \<and> distinct (map fst (lastBgpconfig (snd (checkBGPConfig c st))))"
  proof (cases "getBGPConfig c (world st)")
    case (Pair x w)
    show ?thesis
    proof (cases x)
      case (Inl err)
      then show ?thesis
        using Pair assms(1) checkBGPConfig_fetch_failed [of c st err w] by simp
    next
      case (Inr cur)
      with Pair have f: "getBGPConfig c (world st) = (Inr cur, w)" by simp
      have dc: "distinct (map fst cur)" by (rule getBGPConfig_distinct [OF f])
      obtain r st' where r: "checkBGPConfig c st = (r, st')"
        by (cases "checkBGPConfig c st")
      note de = DeepEqual_iff [OF assms(1) dc]
      from checkBGPConfig_fetched [OF f r]
      have ok: "r = Done \<longrightarrow> lastBgpconfig st' = cur
            \<or> (lastBgpconfig st' = lastBgpconfig st \<and> DeepEqual (lastBgpconfig st) cur)"
        and bad: "r \<noteq> Done \<longrightarrow> lastBgpconfig st' = lastBgpconfig st
            \<and> \<not> DeepEqual (lastBgpconfig st) cur"
        by blast+
      show ?thesis
      proof (cases "r = Done")
        case True
        with ok have "lastBgpconfig st' = cur
            \<or> (lastBgpconfig st' = lastBgpconfig st \<and> map_of (lastBgpconfig st) = map_of cur)"
          unfolding de by simp
        then show ?thesis using f r True assms(1) dc by auto
      next
        case False
        with bad have "lastBgpconfig st' = lastBgpconfig st
            \<and> map_of (lastBgpconfig st) \<noteq> map_of cur"
          unfolding de by simp
        then show ?thesis using f r False assms(1) by simp
      qed
    qed
  qed
  have pool: "(case getIPPools e (pworld pc) of
            (Inl err, w) \<Rightarrow> lastIPPool (snd (sync e pc)) = lastIPPool pc
          | (Inr cur, w) \<Rightarrow>
              if fst (sync e pc) = Done
              then (lastIPPool (snd (sync e pc)) = cur
                    \<or> lastIPPool (snd (sync e pc)) = lastIPPool pc)
                   \<and> map_of (lastIPPool (snd (sync e pc))) = map_of cur
              else lastIPPool (snd (sync e pc)) = lastIPPool pc
                   \<and> map_of (lastIPPool pc) \<noteq> map_of cur)
       \<and> distinct (map fst (lastIPPool (snd (sync e pc))))"
  proof (cases "getIPPools e (pworld pc)")
    case (Pair x w)
    show ?thesis
    proof (cases x)
      case (Inl err)
      then show ?thesis
        using Pair assms(2) sync_fetch_failed [of e pc err w] by simp
    next
      case (Inr cur)
      with Pair have f: "getIPPools e (pworld pc) = (Inr cur, w)" by simp
      have dc: "distinct (map fst cur)" by (rule getIPPools_distinct [OF f])
      obtain r pc' where r: "sync e pc = (r, pc')"
        by (cases "sync e pc")
      note de = DeepEqual_iff [OF assms(2) dc]
      from sync_fetched [OF f r]
      have ok: "r = Done \<longrightarrow> lastIPPool pc' = cur
            \<or> (lastIPPool pc' = lastIPPool pc \<and> DeepEqual (lastIPPool pc) cur)"
        and bad: "r \<noteq> Done \<longrightarrow> lastIPPool pc' = lastIPPool pc
            \<and> \<not> DeepEqual (lastIPPool pc) cur"
        by blast+
      show ?thesis
      proof (cases "r = Done")
        case True
        with ok have "lastIPPool pc' = cur
            \<or> (lastIPPool pc' = lastIPPool pc \<and> map_of (lastIPPool pc) = map_of cur)"
          unfolding de by simp
        then show ?thesis using f r True assms(2) dc by auto
      next
        case False
        with bad have "lastIPPool pc' = lastIPPool pc \<and> map_of (lastIPPool pc) \<noteq> map_of cur"
          unfolding de by simp
        then show ?thesis using f r False assms(2) by simp
      qed
    qed
  qed
  from bgp pool show ?thesis by (simp only: conj_assoc)
qed

text \<open>
  C3 (as amended). When the action for one key of a cycle's delta returns an error, the
  loop over the keys returns that error at once, in the state the failed action left, so
  no later key is visited; and a cycle that returns an error returns the error of one
  key's action, ends in the state that action left, and does not replace the baseline.
  This holds for both streams.
\<close>

theorem data_error_aborts_cycle:
  "(applyKeys c a cfg ks1 st = (Done, st1)
      \<and> updateBGPConfig c a k (cfg st1) st1 = (Failed err, st2)
     \<longrightarrow> applyKeys c a cfg (ks1 @ k # ks2) st = (Failed err, st2))
   \<and> (getBGPConfig c (world st) = (Inr cur, w) \<and> checkBGPConfig c st = (Failed err, st')
     \<longrightarrow> lastBgpconfig st' = lastBgpconfig st
         \<and> (\<exists>a' k' cfg' sx. (a', k') \<in> set (plan (CompareMap (lastBgpconfig st) cur))
               \<and> updateBGPConfig c a' k' cfg' sx = (Failed err, st')))
   \<and> (syncKeys e d pools pks1 pc = (Done, pc1)
      \<and> update e (index (pools pc1) pk) d pc1 = (Failed perr, pc2)
     \<longrightarrow> syncKeys e d pools (pks1 @ pk # pks2) pc = (Failed perr, pc2))
   \<and> (getIPPools e (pworld pc) = (Inr pcur, pw) \<and> sync e pc = (Failed perr, pc')
     \<longrightarrow> lastIPPool pc' = lastIPPool pc
         \<and> (\<exists>s' d' px. (s', d') \<in> set (pool_plan (lastIPPool pc) pcur
                                           (CompareMap (lastIPPool pc) pcur))
               \<and> update e s' d' px = (Failed perr, pc')))"
proof (intro conjI impI)
  assume "applyKeys c a cfg ks1 st = (Done, st1)
      \<and> updateBGPConfig c a k (cfg st1) st1 = (Failed err, st2)"
  then show "applyKeys c a cfg (ks1 @ k # ks2) st = (Failed err, st2)"
    by (simp add: applyKeys_append)
next
  assume h: "getBGPConfig c (world st) = (Inr cur, w) \<and> checkBGPConfig c st = (Failed err, st')"
  then have f: "getBGPConfig c (world st) = (Inr cur, w)"
    and r: "checkBGPConfig c st = (Failed err, st')" by blast+
  show "lastBgpconfig st' = lastBgpconfig st"
    using checkBGPConfig_fetched [OF f r] by simp
  show "\<exists>a' k' cfg' sx. (a', k') \<in> set (plan (CompareMap (lastBgpconfig st) cur))
               \<and> updateBGPConfig c a' k' cfg' sx = (Failed err, st')"
    using checkBGPConfig_abort [OF f r] by simp
next
  assume "syncKeys e d pools pks1 pc = (Done, pc1)
      \<and> update e (index (pools pc1) pk) d pc1 = (Failed perr, pc2)"
  then show "syncKeys e d pools (pks1 @ pk # pks2) pc = (Failed perr, pc2)"
    by (simp add: syncKeys_append)
next
  assume h: "getIPPools e (pworld pc) = (Inr pcur, pw) \<and> sync e pc = (Failed perr, pc')"
  then have f: "getIPPools e (pworld pc) = (Inr pcur, pw)"
    and r: "sync e pc = (Failed perr, pc')" by blast+
  show "lastIPPool pc' = lastIPPool pc"
    using sync_fetched [OF f r] by simp
  show "\<exists>s' d' px. (s', d') \<in> set (pool_plan (lastIPPool pc) pcur
                                           (CompareMap (lastIPPool pc) pcur))
               \<and> update e s' d' px = (Failed perr, pc')"
    using sync_abort [OF f r] by simp
qed

text \<open>
  C6. In a cycle of either stream the actions are issued in the order of the plan: the
  Added keys, then the Updated keys, then the Removed keys (the history of a cycle is a
  prefix of the plan, shorter only when an action failed or ended the process). So when
  an action for a Removed key has been issued, the actions for all Added and all Updated
  keys of the cycle have been issued before it.
\<close>

theorem delta_applied_added_updated_removed:
  "(getBGPConfig c (world st) = (Inr cur, w) \<longrightarrow>
      prefix (dispatched (since (trace st) (trace (snd (checkBGPConfig c st)))))
        (plan (CompareMap (lastBgpconfig st) cur))
      \<and> ((\<exists>k. (Act_del, k)
                \<in> set (dispatched (since (trace st) (trace (snd (checkBGPConfig c st)))))) \<longrightarrow>
           prefix (map (Pair Act_add) (Add (CompareMap (lastBgpconfig st) cur))
                   @ map (Pair Act_upd) (Upd (CompareMap (lastBgpconfig st) cur)))
             (dispatched (since (trace st) (trace (snd (checkBGPConfig c st)))))))
   \<and> (getIPPools e (pworld pc) = (Inr pcur, pw) \<longrightarrow>
      prefix (updates (since (ptrace pc) (ptrace (snd (sync e pc)))))
        (pool_plan (lastIPPool pc) pcur (CompareMap (lastIPPool pc) pcur))
      \<and> ((\<exists>s. (s, True) \<in> set (updates (since (ptrace pc) (ptrace (snd (sync e pc)))))) \<longrightarrow>
           prefix (map (\<lambda>k. (index pcur k, False))
                     (Add (CompareMap (lastIPPool pc) pcur)
                      @ Upd (CompareMap (lastIPPool pc) pcur)))
             (updates (since (ptrace pc) (ptrace (snd (sync e pc)))))))"
proof (intro conjI impI)
  assume f: "getBGPConfig c (world st) = (Inr cur, w)"
  obtain r st' where r: "checkBGPConfig c st = (r, st')" by (cases "checkBGPConfig c st")
  from checkBGPConfig_fetched [OF f r] obtain evs where
    t: "trace st' = trace st @ evs" and
    p: "prefix (dispatched evs) (plan (CompareMap (lastBgpconfig st) cur))" and
    o: "(\<exists>k. (Act_del, k) \<in> set (dispatched evs)) \<longrightarrow>
          prefix (map (Pair Act_add) (Add (CompareMap (lastBgpconfig st) cur))
                  @ map (Pair Act_upd) (Upd (CompareMap (lastBgpconfig st) cur)))
            (dispatched evs)" by blast
  have s: "since (trace st) (trace (snd (checkBGPConfig c st))) = evs"
    using r t by simp
  show "prefix (dispatched (since (trace st) (trace (snd (checkBGPConfig c st)))))
        (plan (CompareMap (lastBgpconfig st) cur))"
    unfolding s by (rule p)
  assume "\<exists>k. (Act_del, k)
                \<in> set (dispatched (since (trace st) (trace (snd (checkBGPConfig c st)))))"
  then show "prefix (map (Pair Act_add) (Add (CompareMap (lastBgpconfig st) cur))
                   @ map (Pair Act_upd) (Upd (CompareMap (lastBgpconfig st) cur)))
             (dispatched (since (trace st) (trace (snd (checkBGPConfig c st)))))"
    unfolding s using o by blast
next
  assume f: "getIPPools e (pworld pc) = (Inr pcur, pw)"
  obtain r pc' where r: "sync e pc = (r, pc')" by (cases "sync e pc")
  from sync_fetched [OF f r] obtain evs where
    t: "ptrace pc' = ptrace pc @ evs" and
    p: "prefix (updates evs) (pool_plan (lastIPPool pc) pcur (CompareMap (lastIPPool pc) pcur))"
    and
    o: "(\<exists>s. (s, True) \<in> set (updates evs)) \<longrightarrow>
          prefix (map (\<lambda>k. (index pcur k, False))
                    (Add (CompareMap (lastIPPool pc) pcur) @ Upd (CompareMap (lastIPPool pc) pcur)))
            (updates evs)" by blast
  have s: "since (ptrace pc) (ptrace (snd (sync e pc))) = evs"
    using r t by simp
  show "prefix (updates (since (ptrace pc) (ptrace (snd (sync e pc)))))
        (pool_plan (lastIPPool pc) pcur (CompareMap (lastIPPool pc) pcur))"
    unfolding s by (rule p)
  assume "\<exists>s. (s, True) \<in> set (updates (since (ptrace pc) (ptrace (snd (sync e pc)))))"
  then show "prefix (map (\<lambda>k. (index pcur k, False))
                     (Add (CompareMap (lastIPPool pc) pcur)
                      @ Upd (CompareMap (lastIPPool pc) pcur)))
             (updates (since (ptrace pc) (ptrace (snd (sync e pc)))))"
    unfolding s using o by blast
qed

section \<open>The handler of the pool cache\<close>

text \<open>
  C7. \<open>update\<close> invokes the registered handler exactly when the entry is not empty,
  parses, has a CIDR, the call is not a removal, and the parsed entry is not \<open>equal\<close>
  to the entry stored under its CIDR; it then passes the parsed entry, once, after
  storing it. A removal never invokes the handler. An entry \<open>equal\<close> to the stored one
  invokes no handler and leaves the table as it is: the call only writes its log line.
\<close>

theorem handler_invoked_exactly_on_effective_change:
  "handled (since (ptrace pc) (ptrace (snd (update e ippool del pc))))
     = (case Unmarshal e ippool of
          Inl err \<Rightarrow> []
        | Inr p \<Rightarrow>
            if ippool \<noteq> [] \<and> CIDR e p \<noteq> [] \<and> \<not> del
               \<and> \<not> equal e p (map_of (m pc) (CIDR e p)) \<and> updateHandler e \<noteq> None
            then [p] else [])
   \<and> (del \<longrightarrow> handled (since (ptrace pc) (ptrace (snd (update e ippool del pc)))) = [])
   \<and> (ippool \<noteq> [] \<and> Unmarshal e ippool = Inr q \<and> CIDR e q \<noteq> [] \<and> \<not> del
        \<and> equal e q (map_of (m pc) (CIDR e q))
      \<longrightarrow> update e ippool del pc
            = (Done, pc\<lparr>ptrace := ptrace pc @ [Call_update ippool del]\<rparr>))
   \<and> (ippool \<noteq> [] \<and> Unmarshal e ippool = Inr q \<and> CIDR e q \<noteq> [] \<and> \<not> del
        \<and> \<not> equal e q (map_of (m pc) (CIDR e q))
      \<longrightarrow> m (snd (update e ippool del pc)) = assign (CIDR e q) q (m pc))"
proof (intro conjI impI)
  show "handled (since (ptrace pc) (ptrace (snd (update e ippool del pc))))
     = (case Unmarshal e ippool of
          Inl err \<Rightarrow> []
        | Inr p \<Rightarrow>
            if ippool \<noteq> [] \<and> CIDR e p \<noteq> [] \<and> \<not> del
               \<and> \<not> equal e p (map_of (m pc) (CIDR e p)) \<and> updateHandler e \<noteq> None
            then [p] else [])"
    unfolding update_cases by (auto split: sum.splits option.splits)
next
  assume del
  then show "handled (since (ptrace pc) (ptrace (snd (update e ippool del pc)))) = []"
    unfolding update_cases by (auto split: sum.splits option.splits)
next
  assume "ippool \<noteq> [] \<and> Unmarshal e ippool = Inr q \<and> CIDR e q \<noteq> [] \<and> \<not> del
        \<and> equal e q (map_of (m pc) (CIDR e q))"
  then show "update e ippool del pc
            = (Done, pc\<lparr>ptrace := ptrace pc @ [Call_update ippool del]\<rparr>)"
    unfolding update_cases by simp
next
  assume "ippool \<noteq> [] \<and> Unmarshal e ippool = Inr q \<and> CIDR e q \<noteq> [] \<and> \<not> del
        \<and> \<not> equal e q (map_of (m pc) (CIDR e q))"
  then show "m (snd (update e ippool del pc)) = assign (CIDR e q) q (m pc)"
    unfolding update_cases by (auto split: option.splits)
qed

text \<open>
  C8 (as amended). \<open>update\<close> with the empty entry string returns \<open>nil\<close>; it does not touch
  the table and does not invoke the handler. \<open>update\<close> with an entry that is not empty
  and whose parsed CIDR is empty returns the error "empty cidr"; it does not touch the
  table and does not invoke the handler. In both cases the call only writes its log line.
\<close>

theorem empty_entry_skipped_and_empty_cidr_rejected:
  "update e [] del pc = (Done, pc\<lparr>ptrace := ptrace pc @ [Call_update [] del]\<rparr>)
   \<and> (ippool \<noteq> [] \<and> Unmarshal e ippool = Inr q \<and> CIDR e q = []
      \<longrightarrow> update e ippool del pc
            = (Failed (EmptyCidr ippool),
               pc\<lparr>ptrace := ptrace pc @ [Call_update ippool del]\<rparr>))"
  unfolding update_cases by simp

section \<open>The model at work on the concrete installation\<close>

lemma demo_client_fields [simp]:
  "GlobalBGP (demo_client kvps) = ''/calico/bgp/v1/global''"
  "AllNodes (demo_client kvps) = ''/calico/bgp/v1/host''"
  "GlobalASN (demo_client kvps) = ''/calico/bgp/v1/global/as_num''"
  "GlobalNodeMesh (demo_client kvps) = ''/calico/bgp/v1/global/node_mesh''"
  "GlobalLogging (demo_client kvps) = ''/calico/bgp/v1/global/loglevel''"
  "node (demo_client kvps) = ''node1''"
  "ser (demo_client kvps) = demo_ser"
  "AddNeighbor (demo_client kvps) n w = (None, w)"
  "DeleteNeighbor (demo_client kvps) n w = (None, w)"
  "getPeerASN (demo_client kvps) host w
     = (if host = ''ghost'' then Inl ''no AS number for node'' else Inr 65001, w)"
  "getNodeASN (demo_client kvps) w = (Inr 64512, w)"
  "ASNumberFromString (demo_client kvps) s
     = (if s = ''65002'' then Inr 65002 else Inl ''invalid AS number'')"
  "underscore (demo_client kvps) = demo_underscore"
  "getMeshNeighborConfigs (demo_client kvps) w = (Inr [], w)"
  "getGlobalNeighborConfigs (demo_client kvps) w = (Inr [], w)"
  "getNodeSpecificNeighborConfigs (demo_client kvps) w = (Inr [], w)"
  "List_GlobalBGPConfig (demo_client kvps) w = (if w then Inr kvps else Inl ''unreachable'', w)"
  "List_GlobalBGPPeer (demo_client kvps) w = (Inr [], w)"
  "Nodes_List (demo_client kvps) w = (Inr [], w)"
  by (simp_all add: demo_client_def)

lemma demo_ser_fields [simp]:
  "adaptor_calls demo_ser kvp = [kvp]"
  "KeyToDefaultPath demo_ser kvp = Inr (fst kvp)"
  "SerializeValue demo_ser kvp = Inr (snd kvp)"
  by (simp_all add: demo_ser_def)

lemma demo_ipam_fields [simp]:
  "pser (demo_ipam kvps) = demo_ser"
  "Unmarshal (demo_ipam kvps) s
     = (case Split s CHR '';'' of [cidr, attrs] \<Rightarrow> Inr (cidr, attrs)
        | _ \<Rightarrow> Inl ''cannot unmarshal'')"
  "CIDR (demo_ipam kvps) = fst"
  "equal (demo_ipam kvps) p q = (q = Some p)"
  "List_IPPool (demo_ipam kvps) w = (if w then Inr kvps else Inl ''unreachable'', w)"
  by (simp_all add: demo_ipam_def)

lemma demo_state_fields [simp]:
  "world (demo_state lasts) = True"
  "trace (demo_state lasts) = []"
  "lastBgpconfig (demo_state lasts) = lasts"
  by (simp_all add: demo_state_def)

lemma demo_cache_fields [simp]:
  "m (demo_cache table lasts) = table"
  "pworld (demo_cache table lasts) = True"
  "ptrace (demo_cache table lasts) = []"
  "lastIPPool (demo_cache table lasts) = lasts"
  by (simp_all add: demo_cache_def)

text \<open>
  The datastore holds an address for the node \<open>ghost\<close>, whose AS number cannot be
  resolved; the baseline holds an address for \<open>node2\<close>, which the datastore no longer has.
\<close>

lemma demo_fetch:
  "getBGPConfig (demo_client [(''/calico/bgp/v1/host/ghost/ip_addr_v4'', ''10.0.0.9'')]) True
     = (Inr (demo_defaults @ [(''/calico/bgp/v1/host/ghost/ip_addr_v4'', ''10.0.0.9'')]), True)"
  by (simp add: getBGPConfig_def populateFromKVPairs_def etcdVarClient_Apply_def
      bgpconfig_defaults_def assign_def demo_defaults_def mesh_enabled_def)

lemma demo_ghost_action:
  "updateBGPConfig (demo_client kvps) Act_add ''/calico/bgp/v1/host/ghost/ip_addr_v4''
      (demo_defaults @ [(''/calico/bgp/v1/host/ghost/ip_addr_v4'', ''10.0.0.9'')])
      (demo_state lasts)
     = (Failed (External ''no AS number for node''),
        (demo_state lasts)
          \<lparr>trace := [Call_updateBGPConfig Act_add ''/calico/bgp/v1/host/ghost/ip_addr_v4'']\<rparr>)"
  by (simp add: updateBGPConfig_def HasPrefix_def Let_def update_node_key_def
      update_ip_addr_def index_def demo_defaults_def demo_state_def)

lemma demo_delta:
  "CompareMap (demo_defaults @ [(''/calico/bgp/v1/host/node2/ip_addr_v4'', ''10.0.0.2'')])
      (demo_defaults @ [(''/calico/bgp/v1/host/ghost/ip_addr_v4'', ''10.0.0.9'')])
     = \<lparr>Add = [''/calico/bgp/v1/host/ghost/ip_addr_v4''], Upd = [],
        Del = [''/calico/bgp/v1/host/node2/ip_addr_v4''],
        Same = [''/calico/bgp/v1/global/loglevel'', ''/calico/bgp/v1/global/as_num'',
                ''/calico/bgp/v1/global/node_mesh'']\<rparr>"
  by (simp add: CompareMap_def demo_defaults_def)

lemma demo_not_DeepEqual:
  "\<not> DeepEqual (demo_defaults @ [(''/calico/bgp/v1/host/node2/ip_addr_v4'', ''10.0.0.2'')])
      (demo_defaults @ [(''/calico/bgp/v1/host/ghost/ip_addr_v4'', ''10.0.0.9'')])"
  by (simp add: DeepEqual_def demo_defaults_def)

lemma demo_cycle:
  "checkBGPConfig (demo_client [(''/calico/bgp/v1/host/ghost/ip_addr_v4'', ''10.0.0.9'')])
      (demo_state (demo_defaults @ [(''/calico/bgp/v1/host/node2/ip_addr_v4'', ''10.0.0.2'')]))
     = (Failed (External ''no AS number for node''),
        (demo_state (demo_defaults @ [(''/calico/bgp/v1/host/node2/ip_addr_v4'', ''10.0.0.2'')]))
          \<lparr>trace := [Call_updateBGPConfig Act_add ''/calico/bgp/v1/host/ghost/ip_addr_v4'']\<rparr>)"
proof -
  have w: "(demo_state lasts)\<lparr>world := True\<rparr> = demo_state lasts" for lasts
    by (simp add: demo_state_def)
  show ?thesis
    by (simp add: checkBGPConfig_def demo_fetch demo_not_DeepEqual demo_delta w
        demo_ghost_action Let_def)
qed

text \<open>The pool datastore holds one entry that does not parse.\<close>

lemma demo_pool_fetch:
  "getIPPools (demo_ipam [(''/calico/v1/ipam/v4/pool/10.0.0.0-8'', ''garbage'')]) True
     = (Inr [(''/calico/v1/ipam/v4/pool/10.0.0.0-8'', ''garbage'')], True)"
  by (simp add: getIPPools_def populateFromKVPairs_def etcdVarClient_Apply_def assign_def)

lemma demo_garbage_action:
  "update (demo_ipam kvps) ''garbage'' False (demo_cache [] [])
     = (Failed (External ''cannot unmarshal''),
        (demo_cache [] [])\<lparr>ptrace := [Call_update ''garbage'' False]\<rparr>)"
  by (simp add: update_cases)

lemma demo_pool_cycle:
  "sync (demo_ipam [(''/calico/v1/ipam/v4/pool/10.0.0.0-8'', ''garbage'')]) (demo_cache [] [])
     = (Failed (External ''cannot unmarshal''),
        (demo_cache [] [])\<lparr>ptrace := [Call_update ''garbage'' False]\<rparr>)"
proof -
  have w: "(demo_cache [] [])\<lparr>pworld := True\<rparr> = demo_cache [] []"
    by (simp add: demo_cache_def)
  show ?thesis
    by (simp add: sync_def demo_pool_fetch DeepEqual_def CompareMap_def w index_def
        demo_garbage_action Let_def)
qed

lemma demo_node2_key:
  "node_key (demo_client kvps) ''/calico/bgp/v1/host/node2/ip_addr_v4''"
  "key_field ''/calico/bgp/v1/host/node2/ip_addr_v4'' = ''ip_addr_v4''"
  "node_key (demo_client kvps) ''/calico/bgp/v1/host/node2/as_num''"
  "key_field ''/calico/bgp/v1/host/node2/as_num'' = ''as_num''"
  "key_host ''/calico/bgp/v1/host/node2/as_num'' = ''node2''"
  by (simp_all add: node_key_def key_field_def key_host_def HasPrefix_def)

text \<open>The theorem of C2 at the failing cycle above: the baseline keeps its value.\<close>

theorem baseline_replaced_iff_cycle_succeeds_witness:
  "distinct (map fst (lastBgpconfig
      (demo_state (demo_defaults @ [(''/calico/bgp/v1/host/node2/ip_addr_v4'', ''10.0.0.2'')]))))
   \<and> distinct (map fst (lastIPPool (demo_cache [] [])))
   \<and> fst (checkBGPConfig
        (demo_client [(''/calico/bgp/v1/host/ghost/ip_addr_v4'', ''10.0.0.9'')])
        (demo_state (demo_defaults
           @ [(''/calico/bgp/v1/host/node2/ip_addr_v4'', ''10.0.0.2'')]))) \<noteq> Done
   \<and> lastBgpconfig (snd (checkBGPConfig
        (demo_client [(''/calico/bgp/v1/host/ghost/ip_addr_v4'', ''10.0.0.9'')])
        (demo_state (demo_defaults
           @ [(''/calico/bgp/v1/host/node2/ip_addr_v4'', ''10.0.0.2'')]))))
      = demo_defaults @ [(''/calico/bgp/v1/host/node2/ip_addr_v4'', ''10.0.0.2'')]"
proof -
  let ?C = "demo_client [(''/calico/bgp/v1/host/ghost/ip_addr_v4'', ''10.0.0.9'')]"
  let ?S = "demo_state (demo_defaults
           @ [(''/calico/bgp/v1/host/node2/ip_addr_v4'', ''10.0.0.2'')])"
  have h1: "distinct (map fst (lastBgpconfig ?S))"
    by (simp add: demo_defaults_def)
  have h2: "distinct (map fst (lastIPPool (demo_cache [] [])))"
    by simp
  have f: "getBGPConfig ?C (world ?S)
      = (Inr (demo_defaults @ [(''/calico/bgp/v1/host/ghost/ip_addr_v4'', ''10.0.0.9'')]), True)"
    using demo_fetch by simp
  have n: "fst (checkBGPConfig ?C ?S) \<noteq> Done"
    by (simp add: demo_cycle)
  have "lastBgpconfig (snd (checkBGPConfig ?C ?S)) = lastBgpconfig ?S"
    using baseline_replaced_iff_cycle_succeeds [OF h1 h2, of ?C "demo_ipam []"] n
    unfolding f by simp
  then have k: "lastBgpconfig (snd (checkBGPConfig ?C ?S))
      = demo_defaults @ [(''/calico/bgp/v1/host/node2/ip_addr_v4'', ''10.0.0.2'')]"
    by simp
  show ?thesis by (rule conjI [OF h1 conjI [OF h2 conjI [OF n k]]])
qed

text \<open>
  C3, counterexample. The delta has the Added key of \<open>ghost\<close> and the Removed key of
  \<open>node2\<close>. The action for the Added key fails on the AS number; the cycle returns that
  error, and the Removed key is never visited.
\<close>

theorem cycle_continues_after_data_error_counterexample:
  "fst (updateBGPConfig
          (demo_client [(''/calico/bgp/v1/host/ghost/ip_addr_v4'', ''10.0.0.9'')])
          Act_add ''/calico/bgp/v1/host/ghost/ip_addr_v4''
          (demo_defaults @ [(''/calico/bgp/v1/host/ghost/ip_addr_v4'', ''10.0.0.9'')])
          (demo_state (demo_defaults
             @ [(''/calico/bgp/v1/host/node2/ip_addr_v4'', ''10.0.0.2'')])))
     = Failed (External ''no AS number for node'')
   \<and> Del (CompareMap
          (demo_defaults @ [(''/calico/bgp/v1/host/node2/ip_addr_v4'', ''10.0.0.2'')])
          (demo_defaults @ [(''/calico/bgp/v1/host/ghost/ip_addr_v4'', ''10.0.0.9'')]))
     = [''/calico/bgp/v1/host/node2/ip_addr_v4'']
   \<and> fst (checkBGPConfig
          (demo_client [(''/calico/bgp/v1/host/ghost/ip_addr_v4'', ''10.0.0.9'')])
          (demo_state (demo_defaults
             @ [(''/calico/bgp/v1/host/node2/ip_addr_v4'', ''10.0.0.2'')])))
     = Failed (External ''no AS number for node'')
   \<and> trace (snd (checkBGPConfig
          (demo_client [(''/calico/bgp/v1/host/ghost/ip_addr_v4'', ''10.0.0.9'')])
          (demo_state (demo_defaults
             @ [(''/calico/bgp/v1/host/node2/ip_addr_v4'', ''10.0.0.2'')]))))
     = [Call_updateBGPConfig Act_add ''/calico/bgp/v1/host/ghost/ip_addr_v4'']"
  by (simp add: demo_ghost_action demo_delta demo_cycle)

text \<open>The theorem of C3 at the two failing cycles above.\<close>

theorem data_error_aborts_cycle_witness:
  "applyKeys (demo_client [(''/calico/bgp/v1/host/ghost/ip_addr_v4'', ''10.0.0.9'')]) Act_add
      (\<lambda>s. demo_defaults @ [(''/calico/bgp/v1/host/ghost/ip_addr_v4'', ''10.0.0.9'')])
      ([] @ ''/calico/bgp/v1/host/ghost/ip_addr_v4'' # [''/calico/bgp/v1/host/node3/ip_addr_v4''])
      (demo_state (demo_defaults @ [(''/calico/bgp/v1/host/node2/ip_addr_v4'', ''10.0.0.2'')]))
     = (Failed (External ''no AS number for node''),
        (demo_state (demo_defaults @ [(''/calico/bgp/v1/host/node2/ip_addr_v4'', ''10.0.0.2'')]))
          \<lparr>trace := [Call_updateBGPConfig Act_add ''/calico/bgp/v1/host/ghost/ip_addr_v4'']\<rparr>)
   \<and> lastBgpconfig
        ((demo_state (demo_defaults @ [(''/calico/bgp/v1/host/node2/ip_addr_v4'', ''10.0.0.2'')]))
          \<lparr>trace := [Call_updateBGPConfig Act_add ''/calico/bgp/v1/host/ghost/ip_addr_v4'']\<rparr>)
     = lastBgpconfig
        (demo_state (demo_defaults @ [(''/calico/bgp/v1/host/node2/ip_addr_v4'', ''10.0.0.2'')]))
   \<and> syncKeys (demo_ipam [(''/calico/v1/ipam/v4/pool/10.0.0.0-8'', ''garbage'')]) False
        (\<lambda>s. [(''/calico/v1/ipam/v4/pool/10.0.0.0-8'', ''garbage'')])
        ([] @ ''/calico/v1/ipam/v4/pool/10.0.0.0-8'' # [''/calico/v1/ipam/v4/pool/11.0.0.0-8''])
        (demo_cache [] [])
     = (Failed (External ''cannot unmarshal''),
        (demo_cache [] [])\<lparr>ptrace := [Call_update ''garbage'' False]\<rparr>)
   \<and> lastIPPool ((demo_cache [] [])\<lparr>ptrace := [Call_update ''garbage'' False]\<rparr>)
     = lastIPPool (demo_cache [] [])"
proof -
  let ?C = "demo_client [(''/calico/bgp/v1/host/ghost/ip_addr_v4'', ''10.0.0.9'')]"
  let ?cur = "demo_defaults @ [(''/calico/bgp/v1/host/ghost/ip_addr_v4'', ''10.0.0.9'')]"
  let ?S = "demo_state (demo_defaults
           @ [(''/calico/bgp/v1/host/node2/ip_addr_v4'', ''10.0.0.2'')])"
  let ?S2 = "?S\<lparr>trace := [Call_updateBGPConfig Act_add ''/calico/bgp/v1/host/ghost/ip_addr_v4'']\<rparr>"
  let ?E = "demo_ipam [(''/calico/v1/ipam/v4/pool/10.0.0.0-8'', ''garbage'')]"
  let ?pcur = "[(''/calico/v1/ipam/v4/pool/10.0.0.0-8'', ''garbage'')]"
  let ?P = "demo_cache [] [] :: (bool, string \<times> string) ipamCacheK8s"
  let ?P2 = "?P\<lparr>ptrace := [Call_update ''garbage'' False]\<rparr>"
  note T = data_error_aborts_cycle
    [where c = ?C and a = Act_add and cfg = "\<lambda>s. ?cur" and ?ks1.0 = "[]" and st = ?S
       and ?st1.0 = ?S and k = "''/calico/bgp/v1/host/ghost/ip_addr_v4''"
       and err = "External ''no AS number for node''" and ?st2.0 = ?S2
       and ?ks2.0 = "[''/calico/bgp/v1/host/node3/ip_addr_v4'']" and cur = ?cur and w = True
       and st' = ?S2 and e = ?E and d = False and pools = "\<lambda>s. ?pcur" and ?pks1.0 = "[]"
       and pc = ?P and ?pc1.0 = ?P and pk = "''/calico/v1/ipam/v4/pool/10.0.0.0-8''"
       and perr = "External ''cannot unmarshal''" and ?pc2.0 = ?P2
       and ?pks2.0 = "[''/calico/v1/ipam/v4/pool/11.0.0.0-8'']" and pcur = ?pcur and pw = True
       and pc' = ?P2]
  have p1: "applyKeys ?C Act_add (\<lambda>s. ?cur) [] ?S = (Done, ?S)
      \<and> updateBGPConfig ?C Act_add ''/calico/bgp/v1/host/ghost/ip_addr_v4'' ?cur ?S
          = (Failed (External ''no AS number for node''), ?S2)"
    by (simp add: demo_ghost_action)
  have p2: "getBGPConfig ?C (world ?S) = (Inr ?cur, True)
      \<and> checkBGPConfig ?C ?S = (Failed (External ''no AS number for node''), ?S2)"
    using demo_fetch demo_cycle by simp
  have p3: "syncKeys ?E False (\<lambda>s. ?pcur) [] ?P = (Done, ?P)
      \<and> update ?E (index ?pcur ''/calico/v1/ipam/v4/pool/10.0.0.0-8'') False ?P
          = (Failed (External ''cannot unmarshal''), ?P2)"
    by (simp add: index_def demo_garbage_action)
  have p4: "getIPPools ?E (pworld ?P) = (Inr ?pcur, True)
      \<and> sync ?E ?P = (Failed (External ''cannot unmarshal''), ?P2)"
    using demo_pool_fetch demo_pool_cycle by simp
  have c1: "applyKeys ?C Act_add (\<lambda>s. ?cur)
      ([] @ ''/calico/bgp/v1/host/ghost/ip_addr_v4'' # [''/calico/bgp/v1/host/node3/ip_addr_v4''])
      ?S = (Failed (External ''no AS number for node''), ?S2)"
    using T p1 by blast
  have c2: "lastBgpconfig ?S2 = lastBgpconfig ?S"
    using T p2 by blast
  have c3: "syncKeys ?E False (\<lambda>s. ?pcur)
      ([] @ ''/calico/v1/ipam/v4/pool/10.0.0.0-8'' # [''/calico/v1/ipam/v4/pool/11.0.0.0-8''])
      ?P = (Failed (External ''cannot unmarshal''), ?P2)"
    using T p3 by blast
  have c4: "lastIPPool ?P2 = lastIPPool ?P"
    using T p4 by blast
  show ?thesis by (rule conjI [OF c1 conjI [OF c2 conjI [OF c3 c4]]])
qed

end
